theory Spec2Isabelle
  imports Main "HOL-Library.Sublist"
begin

section \<open>Signal/slot resolution of the code browser (generator/qtsupport.cpp)\<close>

text \<open>
  The development embeds \<^verbatim>\<open>lookUpCandidates\<close>, \<^verbatim>\<open>QtSupport::handleSignalOrSlot\<close> and
  \<^verbatim>\<open>QtSupport::handleInvokeMethod\<close>. The clang AST the functions query (classes, methods,
  types and the type printer) is not part of the repository; the small model of it below
  holds exactly the queries the three functions make.
\<close>

subsection \<open>llvm::StringRef operations used by the code\<close>

text \<open>\<^verbatim>\<open>StringRef::trim()\<close> strips the characters of \<^verbatim>\<open>" \t\n\v\f\r"\<close> on both sides.\<close>

definition isTrimChar :: "char \<Rightarrow> bool" where
  "isTrimChar c = (c = CHR '' '' \<or> c = CHR 0x09 \<or> c = CHR 0x0A \<or> c = CHR 0x0B
                   \<or> c = CHR 0x0C \<or> c = CHR 0x0D)"

definition ltrim :: "string \<Rightarrow> string" where
  "ltrim s = dropWhile isTrimChar s"

definition rtrim :: "string \<Rightarrow> string" where
  "rtrim s = rev (dropWhile isTrimChar (rev s))"

definition trim :: "string \<Rightarrow> string" where
  "trim s = rtrim (ltrim s)"

text \<open>How far \<^verbatim>\<open>trim()\<close> moves the start of the view.\<close>

definition trimStart :: "string \<Rightarrow> nat" where
  "trimStart s = length (takeWhile isTrimChar s)"

text \<open>\<^verbatim>\<open>StringRef::find(char)\<close>; \<open>None\<close> is \<^verbatim>\<open>npos\<close>.\<close>

fun findChar :: "char \<Rightarrow> string \<Rightarrow> nat option" where
  "findChar c [] = None"
| "findChar c (x # xs) =
     (if x = c then Some 0
      else case findChar c xs of None \<Rightarrow> None | Some i \<Rightarrow> Some (Suc i))"

text \<open>\<^verbatim>\<open>StringRef::substr(Start, N)\<close> and \<^verbatim>\<open>StringRef::slice(Start, End)\<close>, both of which
  clamp their arguments to the view.\<close>

definition substr :: "nat \<Rightarrow> nat \<Rightarrow> string \<Rightarrow> string" where
  "substr start n s = take n (drop start s)"

definition slice :: "nat \<Rightarrow> nat \<Rightarrow> string \<Rightarrow> string" where
  "slice start end s = take (end - start) (drop start s)"

definition starts_with :: "string \<Rightarrow> string \<Rightarrow> bool" where
  "starts_with p s = (take (length p) s = p)"

definition ends_with :: "string \<Rightarrow> string \<Rightarrow> bool" where
  "ends_with p s = (length p \<le> length s \<and> drop (length s - length p) s = p)"

subsection \<open>Finding the end of the next argument (lines 144-177)\<close>

text \<open>The \<^verbatim>\<open>switch\<close> of the inner loop: the update of \<^verbatim>\<open>depth\<close> and \<^verbatim>\<open>templDepth\<close> for
  one character. Both are C \<^verbatim>\<open>int\<close>s that change by one per character, so they stay far
  from the 32-bit range for any string literal.\<close>

fun nestStep :: "char \<Rightarrow> int \<times> int \<Rightarrow> int \<times> int" where
  "nestStep c (depth, templDepth) =
     (if c = CHR ''('' \<or> c = CHR ''['' \<or> c = CHR ''{'' then (depth + 1, templDepth)
      else if c = CHR '')'' \<or> c = CHR '']'' \<or> c = CHR ''}'' then (depth - 1, templDepth)
      else if c = CHR ''>'' then (if depth = 0 then (depth, templDepth - 1) else (depth, templDepth))
      else if c = CHR ''<'' then (if depth = 0 then (depth, templDepth + 1) else (depth, templDepth))
      else (depth, templDepth))"

text \<open>The inner \<^verbatim>\<open>while\<close> that runs after a \<^verbatim>\<open><\<close>: it returns the new \<^verbatim>\<open>searchPos\<close>.\<close>

function skipTemplate :: "string \<Rightarrow> nat \<Rightarrow> int \<Rightarrow> int \<Rightarrow> nat" where
  "skipTemplate sig searchPos depth templDepth =
     (if searchPos < length sig \<and> 0 \<le> depth \<and> 0 \<le> templDepth
      then (case nestStep (sig ! searchPos) (depth, templDepth) of
              (d, t) \<Rightarrow> skipTemplate sig (searchPos + 1) d t)
      else searchPos)"
  by pat_completeness auto
termination
  by (relation "measure (\<lambda>(sig, searchPos, depth, templDepth). length sig - searchPos)") auto

declare skipTemplate.simps [simp del]

lemma skipTemplate_ge: "searchPos \<le> skipTemplate sig searchPos depth templDepth"
proof (induction sig searchPos depth templDepth rule: skipTemplate.induct)
  case (1 sig searchPos depth templDepth)
  show ?case
  proof (cases "searchPos < length sig \<and> 0 \<le> depth \<and> 0 \<le> templDepth")
    case True
    obtain d t where dt: "nestStep (sig ! searchPos) (depth, templDepth) = (d, t)"
      by (cases "nestStep (sig ! searchPos) (depth, templDepth)")
    from "1.IH" [OF True dt [symmetric]]
    have "searchPos + 1 \<le> skipTemplate sig (searchPos + 1) d t" .
    with True dt show ?thesis
      by (subst skipTemplate.simps) simp
  next
    case False
    then show ?thesis
      by (subst skipTemplate.simps) auto
  qed
qed

lemma skipTemplate_le: "searchPos \<le> length sig \<Longrightarrow> skipTemplate sig searchPos depth templDepth \<le> length sig"
proof (induction sig searchPos depth templDepth rule: skipTemplate.induct)
  case (1 sig searchPos depth templDepth)
  show ?case
  proof (cases "searchPos < length sig \<and> 0 \<le> depth \<and> 0 \<le> templDepth")
    case True
    obtain d t where dt: "nestStep (sig ! searchPos) (depth, templDepth) = (d, t)"
      by (cases "nestStep (sig ! searchPos) (depth, templDepth)")
    from True have "searchPos + 1 \<le> length sig" by simp
    from "1.IH" [OF True dt [symmetric] this]
    have "skipTemplate sig (searchPos + 1) d t \<le> length sig" .
    with True dt show ?thesis
      by (subst skipTemplate.simps) simp
  next
    case False
    with "1.prems" show ?thesis
      by (subst skipTemplate.simps) auto
  qed
qed

text \<open>The outer \<^verbatim>\<open>while\<close>: from \<^verbatim>\<open>argPos\<close> to the next \<^verbatim>\<open>,\<close> or \<^verbatim>\<open>)\<close> that is not inside a
  group opened by \<^verbatim>\<open><\<close>, or to the end of the string.\<close>

function findArgumentEnd :: "string \<Rightarrow> nat \<Rightarrow> nat" where
  "findArgumentEnd sig searchPos =
     (if searchPos < length sig \<and> sig ! searchPos \<noteq> CHR '','' \<and> sig ! searchPos \<noteq> CHR '')''
      then (if sig ! searchPos = CHR ''<''
            then findArgumentEnd sig (skipTemplate sig (searchPos + 1) 0 0)
            else findArgumentEnd sig (searchPos + 1))
      else searchPos)"
  by pat_completeness auto
termination
proof (relation "measure (\<lambda>(sig, searchPos). length sig - searchPos)")
  show "wf (measure (\<lambda>(sig, searchPos). length sig - searchPos))" by simp
next
  fix sig :: string and searchPos :: nat
  assume a: "searchPos < length sig \<and> sig ! searchPos \<noteq> CHR '','' \<and> sig ! searchPos \<noteq> CHR '')''"
  have "Suc searchPos \<le> skipTemplate sig (Suc searchPos) 0 0"
    by (rule skipTemplate_ge)
  moreover from a have "searchPos < length sig" by simp
  ultimately have "length sig - skipTemplate sig (Suc searchPos) 0 0 < length sig - searchPos"
    by arith
  then show "((sig, skipTemplate sig (searchPos + 1) 0 0), (sig, searchPos))
      \<in> measure (\<lambda>(sig, searchPos). length sig - searchPos)"
    by simp
next
  fix sig :: string and searchPos :: nat
  assume "searchPos < length sig \<and> sig ! searchPos \<noteq> CHR '','' \<and> sig ! searchPos \<noteq> CHR '')''"
  then have "length sig - Suc searchPos < length sig - searchPos"
    by arith
  then show "((sig, searchPos + 1), (sig, searchPos))
      \<in> measure (\<lambda>(sig, searchPos). length sig - searchPos)"
    by simp
qed

declare findArgumentEnd.simps [simp del]


lemma findArgumentEnd_ge: "searchPos \<le> findArgumentEnd sig searchPos"
proof (induction sig searchPos rule: findArgumentEnd.induct)
  case (1 sig searchPos)
  let ?go = "searchPos < length sig \<and> sig ! searchPos \<noteq> CHR '','' \<and> sig ! searchPos \<noteq> CHR '')''"
  show ?case
  proof (cases ?go)
    case go: True
    show ?thesis
    proof (cases "sig ! searchPos = CHR ''<''")
      case True
      have "searchPos + 1 \<le> skipTemplate sig (searchPos + 1) 0 0"
        by (rule skipTemplate_ge)
      moreover from "1.IH"(1) [OF go True]
      have "skipTemplate sig (searchPos + 1) 0 0
              \<le> findArgumentEnd sig (skipTemplate sig (searchPos + 1) 0 0)" .
      ultimately show ?thesis
        using go True by (subst findArgumentEnd.simps) simp
    next
      case False
      from "1.IH"(2) [OF go False] go False show ?thesis
        by (subst findArgumentEnd.simps) simp
    qed
  next
    case False
    then show ?thesis
      by (subst findArgumentEnd.simps) auto
  qed
qed

lemma findArgumentEnd_le: "searchPos \<le> length sig \<Longrightarrow> findArgumentEnd sig searchPos \<le> length sig"
proof (induction sig searchPos rule: findArgumentEnd.induct)
  case (1 sig searchPos)
  let ?go = "searchPos < length sig \<and> sig ! searchPos \<noteq> CHR '','' \<and> sig ! searchPos \<noteq> CHR '')''"
  show ?case
  proof (cases ?go)
    case go: True
    show ?thesis
    proof (cases "sig ! searchPos = CHR ''<''")
      case True
      from go have "skipTemplate sig (searchPos + 1) 0 0 \<le> length sig"
        by (intro skipTemplate_le) simp
      from "1.IH"(1) [OF go True this] go True show ?thesis
        by (subst findArgumentEnd.simps) simp
    next
      case False
      from go have "searchPos + 1 \<le> length sig" by simp
      from "1.IH"(2) [OF go False this] go False show ?thesis
        by (subst findArgumentEnd.simps) simp
    qed
  next
    case False
    with "1.prems" show ?thesis
      by (subst findArgumentEnd.simps) auto
  qed
qed

subsection \<open>Extracting the next argument (lines 144-188)\<close>

text \<open>
  \<^verbatim>\<open>argument\<close> is a view into the signature. The model keeps its text and the index of
  its first character in the signature; the comparison loop below reads the signature's
  buffer through that index.

  Lines 182-186, from the text between \<^verbatim>\<open>argPos\<close> and \<^verbatim>\<open>searchPos\<close>: the text is trimmed, and
  a text that starts with \<^verbatim>\<open>"const "\<close> and ends with \<^verbatim>\<open>"&"\<close> loses both and is trimmed again.
  The result is the offset of the first character of \<^verbatim>\<open>argument\<close> in the text, and
  \<^verbatim>\<open>argument\<close>.
\<close>

definition extractArgument :: "string \<Rightarrow> nat \<times> string" where
  "extractArgument raw =
     (let argument = trim raw in
      if starts_with ''const '' argument \<and> ends_with ''&'' argument
      then (let inner = slice 6 (length argument - 1) argument
            in (trimStart raw + 6 + trimStart inner, trim inner))
      else (trimStart raw, argument))"

text \<open>
  Lines 144-188. The result is \<open>None\<close> when the search reached the end of the signature
  (the \<^verbatim>\<open>return\<close> of line 180), and otherwise \<^verbatim>\<open>searchPos\<close>, the index of the first
  character of \<^verbatim>\<open>argument\<close> in the signature, and the text of \<^verbatim>\<open>argument\<close>.
\<close>

definition nextArgument :: "string \<Rightarrow> nat \<Rightarrow> (nat \<times> nat \<times> string) option" where
  "nextArgument sig argPos =
     (let searchPos = findArgumentEnd sig argPos in
      if searchPos = length sig then None
      else (case extractArgument (substr argPos (searchPos - argPos) sig) of
              (offset, argument) \<Rightarrow> Some (searchPos, argPos + offset, argument)))"

lemma nextArgument_bounds:
  assumes "nextArgument sig argPos = Some (searchPos, argBegin, argument)"
    and "argPos \<le> length sig"
  shows "argPos \<le> searchPos \<and> searchPos < length sig"
proof -
  from assms(1) have sp: "searchPos = findArgumentEnd sig argPos" and ne: "searchPos \<noteq> length sig"
    by (auto simp: nextArgument_def Let_def split: if_splits prod.splits)
  from findArgumentEnd_ge [of argPos sig] findArgumentEnd_le [OF assms(2)] sp ne
  show ?thesis by simp
qed

subsection \<open>The declarations the resolver queries\<close>

text \<open>
  Modelled from the spec: clang's \<^verbatim>\<open>QualType\<close>, \<^verbatim>\<open>CXXMethodDecl\<close> and \<^verbatim>\<open>CXXRecordDecl\<close> are
  the external declaration and type universe of section 6 of the specification. A type is
  a builtin or record type named by its printed name, a pointer or a reference, with a
  \<^verbatim>\<open>const\<close> flag where C++ allows one; \<open>NullType\<close> is the null \<^verbatim>\<open>QualType\<close>. A record type
  names its class, and a class is looked up by that name.
\<close>

datatype QualType =
    NullType
  | BuiltinType bool string
  | RecordType bool string
  | PointerType bool QualType
  | ReferenceType QualType

fun isNull :: "QualType \<Rightarrow> bool" where
  "isNull NullType = True"
| "isNull _ = False"

fun isReferenceType :: "QualType \<Rightarrow> bool" where
  "isReferenceType (ReferenceType t) = True"
| "isReferenceType _ = False"

fun getNonReferenceType :: "QualType \<Rightarrow> QualType" where
  "getNonReferenceType (ReferenceType t) = t"
| "getNonReferenceType t = t"

fun isConstQualified :: "QualType \<Rightarrow> bool" where
  "isConstQualified (BuiltinType c n) = c"
| "isConstQualified (RecordType c n) = c"
| "isConstQualified (PointerType c t) = c"
| "isConstQualified _ = False"

fun removeLocalConst :: "QualType \<Rightarrow> QualType" where
  "removeLocalConst (BuiltinType c n) = BuiltinType False n"
| "removeLocalConst (RecordType c n) = RecordType False n"
| "removeLocalConst (PointerType c t) = PointerType False t"
| "removeLocalConst t = t"

text \<open>Modelled from the spec: \<^verbatim>\<open>printedText\<close> with the scope suppressed, the way clang
  prints these types (\<^verbatim>\<open>const QString &\<close>, \<^verbatim>\<open>QObject *\<close>, \<^verbatim>\<open>char *const\<close>).\<close>

fun getAsString :: "QualType \<Rightarrow> string" where
  "getAsString NullType = ''NULL TYPE''"
| "getAsString (BuiltinType c n) = (if c then ''const '' @ n else n)"
| "getAsString (RecordType c n) = (if c then ''const '' @ n else n)"
| "getAsString (PointerType c t) = getAsString t @ (if c then '' *const'' else '' *'')"
| "getAsString (ReferenceType t) = getAsString t @ '' &''"

text \<open>Modelled from the spec: \<^verbatim>\<open>pointeeClassOf\<close> (\<^verbatim>\<open>Type::getPointeeCXXRecordDecl\<close>) and
  \<^verbatim>\<open>Type::getAsCXXRecordDecl\<close>; \<open>None\<close> is the null pointer.\<close>

fun getAsCXXRecordDecl :: "QualType \<Rightarrow> string option" where
  "getAsCXXRecordDecl (RecordType c n) = Some n"
| "getAsCXXRecordDecl _ = None"

fun getPointeeCXXRecordDecl :: "QualType \<Rightarrow> string option" where
  "getPointeeCXXRecordDecl (PointerType c t) = getAsCXXRecordDecl t"
| "getPointeeCXXRecordDecl (ReferenceType t) = getAsCXXRecordDecl t"
| "getPointeeCXXRecordDecl _ = None"

text \<open>Modelled from the spec: a method declaration with the fields the code reads.
  \<open>getIdentifier\<close> is \<open>None\<close> for a constructor, destructor or operator; \<open>params\<close> are the
  declared parameter types; \<open>parent\<close> is the owning class.\<close>

record CXXMethodDecl =
  parent :: string
  getIdentifier :: "string option"
  params :: "QualType list"
  getMinRequiredArguments :: nat
  resultType :: QualType

text \<open>Modelled from the spec: the definition of a class, with its methods in declaration
  order and the types of its base specifiers. An \<open>ASTContext\<close> gives each class name its
  definition, and \<open>None\<close> to a class that is declared but not defined.\<close>

record CXXRecordDecl =
  methods :: "CXXMethodDecl list"
  bases :: "QualType list"

type_synonym ASTContext = "string \<Rightarrow> CXXRecordDecl option"


subsection \<open>lookUpCandidates (lines 41-71)\<close>

text \<open>The \<^verbatim>\<open>for\<close> loop over the methods of one class: it appends to \<^verbatim>\<open>candidates\<close> and
  sets \<^verbatim>\<open>d_func\<close> when it is still null. \<^verbatim>\<open>getResultType\<close> is a helper of the repository
  that returns the method's return type.\<close>

fun scanMethods ::
  "string \<Rightarrow> CXXMethodDecl list \<Rightarrow> CXXMethodDecl list \<times> CXXMethodDecl option
    \<Rightarrow> CXXMethodDecl list \<times> CXXMethodDecl option" where
  "scanMethods methodName [] (candidates, d_func) = (candidates, d_func)"
| "scanMethods methodName (mi # rest) (candidates, d_func) =
     (case getIdentifier mi of
        None \<Rightarrow> scanMethods methodName rest (candidates, d_func)
      | Some name \<Rightarrow>
          scanMethods methodName rest
            (if name = methodName then candidates @ [mi] else candidates,
             if d_func = None \<and> name = ''d_func'' \<and> \<not> isNull (resultType mi)
             then Some mi else d_func))"

text \<open>\<^verbatim>\<open>classIt->getNumBases() == 0 ? nullptr : classIt->bases_begin()->getType()->getAsCXXRecordDecl()\<close>\<close>

definition firstBase :: "CXXRecordDecl \<Rightarrow> string option" where
  "firstBase cls = (case bases cls of [] \<Rightarrow> None | b # _ \<Rightarrow> getAsCXXRecordDecl b)"

text \<open>The \<^verbatim>\<open>while (classIt)\<close> loop. Nothing in the code bounds its iterations, so it is a
  partial function: \<open>None\<close> is a walk that never ends.\<close>

partial_function (option) lookUpLoop ::
  "ASTContext \<Rightarrow> string \<Rightarrow> CXXMethodDecl list \<Rightarrow> CXXMethodDecl option \<Rightarrow> string option
    \<Rightarrow> CXXMethodDecl list option" where
  "lookUpLoop ctx methodName candidates d_func classIt =
     (case classIt of
        None \<Rightarrow> Some candidates
      | Some c \<Rightarrow>
          (case ctx c of
             None \<Rightarrow> Some candidates
           | Some cls \<Rightarrow>
               (case scanMethods methodName (methods cls) (candidates, d_func) of
                  (candidates', d_func') \<Rightarrow>
                    (case d_func' of
                       Some d \<Rightarrow>
                         if firstBase cls = None \<and> candidates' = []
                         then lookUpLoop ctx methodName candidates' None
                                (getPointeeCXXRecordDecl (resultType d))
                         else lookUpLoop ctx methodName candidates' d_func' (firstBase cls)
                     | None \<Rightarrow> lookUpLoop ctx methodName candidates' d_func' (firstBase cls)))))"

declare lookUpLoop.simps [code]

definition lookUpCandidates :: "ASTContext \<Rightarrow> string \<Rightarrow> string \<Rightarrow> CXXMethodDecl list option" where
  "lookUpCandidates ctx objClass methodName = lookUpLoop ctx methodName [] None (Some objClass)"

subsection \<open>Comparing an argument with a parameter type (lines 203-240)\<close>

datatype error = OutOfBounds

text \<open>
  \<^verbatim>\<open>llvm::StringRef(it, 9).starts_with("nsigned ")\<close> compares the eight bytes at \<^verbatim>\<open>it\<close>,
  whatever the end of the view \<^verbatim>\<open>it\<close> walks over. \<open>matchesAt\<close> is the comparison inside the
  buffer; \<open>readsPast\<close> says that the buffer ends before a byte differs, where the comparison
  would read past the buffer.
\<close>

definition matchesAt :: "string \<Rightarrow> nat \<Rightarrow> string \<Rightarrow> bool" where
  "matchesAt buf i pat = (take (length pat) (drop i buf) = pat)"

definition readsPast :: "string \<Rightarrow> nat \<Rightarrow> string \<Rightarrow> bool" where
  "readsPast buf i pat =
     (length buf - i < length pat \<and> drop i buf = take (length buf - i) pat)"

text \<open>
  The comparison loop of lines 217-234 over two buffers, with \<^verbatim>\<open>sigIt\<close>, \<^verbatim>\<open>parIt\<close> and the
  two end iterators as indices. The skip of \<^verbatim>\<open>"nsigned "\<close> can move an iterator past its end
  iterator; the loop then goes on, as its condition only tests for equality. A read
  outside a buffer is the error \<open>OutOfBounds\<close>. The result is the pair of iterators at
  the exit of the loop.
\<close>

function compareLoop ::
  "string \<Rightarrow> nat \<Rightarrow> nat \<Rightarrow> string \<Rightarrow> nat \<Rightarrow> nat \<Rightarrow> error + (nat \<times> nat)" where
  "compareLoop sbuf sigIt sigEnd pbuf parIt parEnd =
     (if sigIt \<noteq> sigEnd \<and> parIt \<noteq> parEnd then
        if \<not> (sigIt < length sbuf \<and> parIt < length pbuf) then Inl OutOfBounds
        else if sbuf ! sigIt = pbuf ! parIt then compareLoop sbuf (sigIt + 1) sigEnd pbuf (parIt + 1) parEnd
        else if sbuf ! sigIt = CHR '' '' then compareLoop sbuf (sigIt + 1) sigEnd pbuf parIt parEnd
        else if pbuf ! parIt = CHR '' '' then compareLoop sbuf sigIt sigEnd pbuf (parIt + 1) parEnd
        else if sbuf ! sigIt = CHR ''n'' \<and> readsPast sbuf sigIt ''nsigned '' then Inl OutOfBounds
        else if sbuf ! sigIt = CHR ''n'' \<and> matchesAt sbuf sigIt ''nsigned ''
          then compareLoop sbuf (sigIt + 8) sigEnd pbuf parIt parEnd
        else if pbuf ! parIt = CHR ''n'' \<and> readsPast pbuf parIt ''nsigned '' then Inl OutOfBounds
        else if pbuf ! parIt = CHR ''n'' \<and> matchesAt pbuf parIt ''nsigned ''
          then compareLoop sbuf sigIt sigEnd pbuf (parIt + 8) parEnd
        else Inr (sigIt, parIt)
      else Inr (sigIt, parIt))"
  by pat_completeness auto
termination
  by (relation "measure (\<lambda>(sbuf, sigIt, sigEnd, pbuf, parIt, parEnd).
        (length sbuf - sigIt) + (length pbuf - parIt))") auto

declare compareLoop.simps [simp del]

text \<open>Lines 203-208: remove \<^verbatim>\<open>const\<close> or \<^verbatim>\<open>const &\<close> from the parameter's type.\<close>

definition strippedType :: "QualType \<Rightarrow> QualType" where
  "strippedType type =
     removeLocalConst
       (if isReferenceType type \<and> isConstQualified (getNonReferenceType type)
        then getNonReferenceType type else type)"

text \<open>
  Lines 210-240 for one parameter type: \<open>Inr True\<close> when both iterators stand at their
  ends after the loop (the candidate is kept), \<open>Inr False\<close> when the candidate is erased.
  \<open>typeStr\<close> is the \<^verbatim>\<open>std::string typeString_\<close>, whose buffer ends with a NUL byte;
  \<^verbatim>\<open>typeString\<close> is the trimmed view from \<open>parBegin\<close> to \<open>parEnd\<close>.
\<close>

definition paramMatches :: "string \<Rightarrow> nat \<Rightarrow> nat \<Rightarrow> QualType \<Rightarrow> error + bool" where
  "paramMatches sbuf argBegin argEnd type =
     (let typeStr = getAsString (strippedType type);
          parBegin = trimStart typeStr;
          parEnd = parBegin + length (trim typeStr)
      in case compareLoop sbuf argBegin argEnd (typeStr @ [CHR 0x00]) parBegin parEnd of
           Inl e \<Rightarrow> Inl e
         | Inr (sigIt, parIt) \<Rightarrow> Inr (sigIt = argEnd \<and> parIt = parEnd))"

subsection \<open>Pruning the candidates for one argument (lines 194-243)\<close>

text \<open>\<^verbatim>\<open>arg\<close> is an \<^verbatim>\<open>unsigned int\<close> that counts the arguments of one string literal; it is
  a natural number here.\<close>

fun pruneCandidates ::
  "string \<Rightarrow> nat \<Rightarrow> nat \<Rightarrow> nat \<Rightarrow> CXXMethodDecl list \<Rightarrow> error + CXXMethodDecl list" where
  "pruneCandidates sbuf argBegin argEnd arg [] = Inr []"
| "pruneCandidates sbuf argBegin argEnd arg (it # rest) =
     (if length (params it) < arg + 1 then pruneCandidates sbuf argBegin argEnd arg rest
      else case paramMatches sbuf argBegin argEnd (params it ! arg) of
             Inl e \<Rightarrow> Inl e
           | Inr matched \<Rightarrow>
               (case pruneCandidates sbuf argBegin argEnd arg rest of
                  Inl e \<Rightarrow> Inl e
                | Inr kept \<Rightarrow> Inr (if matched then it # kept else kept)))"

subsection \<open>The loop over the arguments (lines 139-248)\<close>

text \<open>
  \<open>sbuf\<close> is the buffer the signature is a view of, from the signature's first character
  on. The result is \<open>Inr None\<close> for the \<^verbatim>\<open>return\<close> inside the loop, and otherwise the values
  of \<^verbatim>\<open>argPos\<close>, \<^verbatim>\<open>arg\<close> and \<^verbatim>\<open>candidates\<close> after the loop.
\<close>

function argumentLoop ::
  "string \<Rightarrow> string \<Rightarrow> nat \<Rightarrow> nat \<Rightarrow> CXXMethodDecl list
    \<Rightarrow> error + (nat \<times> nat \<times> CXXMethodDecl list) option" where
  "argumentLoop sbuf sig argPos arg candidates =
     (if argPos < length sig \<and> candidates \<noteq> [] then
        (case nextArgument sig argPos of
           None \<Rightarrow> Inr None
         | Some (searchPos, argBegin, argument) \<Rightarrow>
             if argument = [] \<and> sig ! searchPos = CHR '')'' \<and> arg = 0
             then Inr (Some (searchPos + 1, arg, candidates))
             else (case pruneCandidates sbuf argBegin (argBegin + length argument) arg candidates of
                     Inl e \<Rightarrow> Inl e
                   | Inr candidates' \<Rightarrow>
                       if sig ! searchPos = CHR '')''
                       then Inr (Some (searchPos + 1, arg + 1, candidates'))
                       else argumentLoop sbuf sig (searchPos + 1) (arg + 1) candidates'))
      else Inr (Some (argPos, arg, candidates)))"
  by pat_completeness auto
termination
proof (relation "measure (\<lambda>(sbuf, sig, argPos, arg, candidates). length sig - argPos)")
  show "wf (measure (\<lambda>(sbuf, sig, argPos, arg, candidates). length sig - argPos))" by simp
next
  fix sbuf sig :: string and argPos arg :: nat and candidates candidates' :: "CXXMethodDecl list"
    and x2 :: "nat \<times> nat \<times> string" and searchPos :: nat and y :: "nat \<times> string"
    and argBegin :: nat and argument :: string
  assume "argPos < length sig \<and> candidates \<noteq> []"
    and "nextArgument sig argPos = Some x2" and "(searchPos, y) = x2" and "(argBegin, argument) = y"
  then have "nextArgument sig argPos = Some (searchPos, argBegin, argument)" and "argPos \<le> length sig"
    by auto
  from nextArgument_bounds [OF this] have "length sig - Suc searchPos < length sig - argPos"
    by arith
  then show "((sbuf, sig, searchPos + 1, arg + 1, candidates'), (sbuf, sig, argPos, arg, candidates))
      \<in> measure (\<lambda>(sbuf, sig, argPos, arg, candidates). length sig - argPos)"
    by simp
qed

declare argumentLoop.simps [simp del]


subsection \<open>handleSignalOrSlot (lines 115-268)\<close>

text \<open>
  Lines 115-121: the signature is the trimmed string of the literal, cut at its first NUL
  byte and trimmed again; \<open>None\<close> is the \<^verbatim>\<open>return\<close> for fewer than four characters. The
  signature starts at the literal's first character that \<^verbatim>\<open>trim()\<close> keeps, so
  \<open>signatureBuffer\<close>, the literal from that character on, is the buffer behind it.
\<close>

definition signatureOf :: "string \<Rightarrow> string option" where
  "signatureOf lit =
     (let signature = trim lit in
      if length signature < 4 then None
      else case findChar (CHR 0x00) signature of
             None \<Rightarrow> Some signature
           | Some nul \<Rightarrow> Some (trim (substr 0 nul signature)))"

definition signatureBuffer :: "string \<Rightarrow> string" where
  "signatureBuffer lit = ltrim lit"

text \<open>Lines 123-126: \<open>None\<close> is the \<^verbatim>\<open>return\<close>, otherwise \<^verbatim>\<open>lParenPos\<close>. A missing \<^verbatim>\<open>(\<close> is
  \<^verbatim>\<open>npos\<close>, the largest value, so that \<^verbatim>\<open>rParenPos < lParenPos\<close> holds.\<close>

definition lParenOf :: "string \<Rightarrow> nat option" where
  "lParenOf signature =
     (case findChar (CHR '')'') signature of
        None \<Rightarrow> None
      | Some rParenPos \<Rightarrow>
          (case findChar (CHR ''('') signature of
             None \<Rightarrow> None
           | Some lParenPos \<Rightarrow>
               if rParenPos < lParenPos \<or> lParenPos < 2 then None else Some lParenPos))"

text \<open>Lines 254-263: the predicate of \<^verbatim>\<open>remove_if\<close> and the erasure.\<close>

definition needsMoreArguments :: "nat \<Rightarrow> CXXMethodDecl \<Rightarrow> bool" where
  "needsMoreArguments arg it =
     (arg < getMinRequiredArguments it
      \<and> \<not> (length (params it) = arg + 1
            \<and> getAsString (params it ! arg) = ''QPrivateSignal''))"

definition removeNeedingMore :: "nat \<Rightarrow> CXXMethodDecl list \<Rightarrow> CXXMethodDecl list" where
  "removeNeedingMore arg candidates = filter (\<lambda>it. \<not> needsMoreArguments arg it) candidates"

text \<open>Lines 250-268, after the loop: the declaration given to \<^verbatim>\<open>registerUse\<close>, or \<open>None\<close>
  for a \<^verbatim>\<open>return\<close> that registers nothing. \<open>resolveCandidates\<close> is lines 139-268, from the
  candidates on.\<close>

definition usedCandidate :: "string \<Rightarrow> nat \<Rightarrow> nat \<Rightarrow> CXXMethodDecl list \<Rightarrow> CXXMethodDecl option" where
  "usedCandidate signature argPos arg candidates =
     (if argPos \<noteq> length signature then None
      else case removeNeedingMore arg candidates of
             [] \<Rightarrow> None
           | used # _ \<Rightarrow> Some used)"

definition resolveCandidates ::
  "string \<Rightarrow> string \<Rightarrow> nat \<Rightarrow> CXXMethodDecl list \<Rightarrow> error + CXXMethodDecl option" where
  "resolveCandidates sbuf signature lParenPos candidates =
     (case argumentLoop sbuf signature (lParenPos + 1) 0 candidates of
        Inl e \<Rightarrow> Inl e
      | Inr None \<Rightarrow> Inr None
      | Inr (Some (argPos, arg, candidates')) \<Rightarrow> Inr (usedCandidate signature argPos arg candidates'))"

text \<open>
  The function from the class of the object and the bytes of the string literal on. Lines
  81-112, which take the class and the literal out of the two clang expressions, and lines
  272-286, which compute the source range that is reported, are not modelled. The outer
  \<open>None\<close> is a candidate walk that never returns; \<open>Some (Inr None)\<close> is a return
  without a registered use; \<open>Some (Inr (Some used))\<close> is the call of \<^verbatim>\<open>registerUse\<close> for
  \<open>used\<close>.
\<close>

definition handleSignalOrSlot ::
  "ASTContext \<Rightarrow> string \<Rightarrow> string \<Rightarrow> (error + CXXMethodDecl option) option" where
  "handleSignalOrSlot ctx objClass lit =
     (case signatureOf lit of
        None \<Rightarrow> Some (Inr None)
      | Some signature \<Rightarrow>
          (case lParenOf signature of
             None \<Rightarrow> Some (Inr None)
           | Some lParenPos \<Rightarrow>
               (case lookUpCandidates ctx objClass (trim (slice 1 lParenPos signature)) of
                  None \<Rightarrow> None
                | Some candidates \<Rightarrow>
                    Some (resolveCandidates (signatureBuffer lit) signature lParenPos candidates))))"

subsection \<open>handleInvokeMethod (lines 318-330)\<close>

text \<open>From the class of the object and the string of the literal, which is the method
  name as it stands: \<open>Some None\<close> is a return without a registered use, \<open>Some (Some used)\<close>
  the call of \<^verbatim>\<open>registerUse\<close>, and \<open>None\<close> a candidate walk that never returns.\<close>

definition handleInvokeMethod :: "ASTContext \<Rightarrow> string \<Rightarrow> string \<Rightarrow> CXXMethodDecl option option" where
  "handleInvokeMethod ctx objClass methodName =
     (if methodName = [] then Some None
      else case lookUpCandidates ctx objClass methodName of
             None \<Rightarrow> None
           | Some candidates \<Rightarrow>
               if length candidates \<noteq> 1 then Some None else Some (Some (hd candidates)))"

subsection \<open>The signature tokenizer\<close>

text \<open>
  The specification's tokenizer is the part of \<^verbatim>\<open>handleSignalOrSlot\<close> that does not look at
  the candidates: the loop of lines 141-248 with the pruning left out. It returns the final
  \<^verbatim>\<open>argPos\<close> and the arguments the loop extracted, \<open>None\<close> for the \<^verbatim>\<open>return\<close> of line 180.
\<close>

function argumentFragments :: "string \<Rightarrow> nat \<Rightarrow> nat \<Rightarrow> (nat \<times> string list) option" where
  "argumentFragments sig argPos arg =
     (if argPos < length sig then
        (case nextArgument sig argPos of
           None \<Rightarrow> None
         | Some (searchPos, argBegin, argument) \<Rightarrow>
             if argument = [] \<and> sig ! searchPos = CHR '')'' \<and> arg = 0
             then Some (searchPos + 1, [])
             else if sig ! searchPos = CHR '')''
             then Some (searchPos + 1, [argument])
             else (case argumentFragments sig (searchPos + 1) (arg + 1) of
                     None \<Rightarrow> None
                   | Some (argPos', arguments) \<Rightarrow> Some (argPos', argument # arguments)))
      else Some (argPos, []))"
  by pat_completeness auto
termination
proof (relation "measure (\<lambda>(sig, argPos, arg). length sig - argPos)")
  show "wf (measure (\<lambda>(sig, argPos, arg). length sig - argPos))" by simp
next
  fix sig :: string and argPos arg :: nat
    and x2 :: "nat \<times> nat \<times> string" and searchPos :: nat and y :: "nat \<times> string"
    and argBegin :: nat and argument :: string
  assume "argPos < length sig"
    and "nextArgument sig argPos = Some x2" and "(searchPos, y) = x2" and "(argBegin, argument) = y"
  then have "nextArgument sig argPos = Some (searchPos, argBegin, argument)" and "argPos \<le> length sig"
    by auto
  from nextArgument_bounds [OF this] have "length sig - Suc searchPos < length sig - argPos"
    by arith
  then show "((sig, searchPos + 1, arg + 1), (sig, argPos, arg))
      \<in> measure (\<lambda>(sig, argPos, arg). length sig - argPos)"
    by simp
qed

declare argumentFragments.simps [simp del]

text \<open>The method name and the arguments of a literal, when lines 115-128 and the loop
  accept it and the loop consumed the whole signature (line 250).\<close>

definition tokenize :: "string \<Rightarrow> (string \<times> string list) option" where
  "tokenize lit =
     (case signatureOf lit of
        None \<Rightarrow> None
      | Some signature \<Rightarrow>
          (case lParenOf signature of
             None \<Rightarrow> None
           | Some lParenPos \<Rightarrow>
               (case argumentFragments signature (lParenPos + 1) 0 of
                  None \<Rightarrow> None
                | Some (argPos, arguments) \<Rightarrow>
                    if argPos \<noteq> length signature then None
                    else Some (trim (slice 1 lParenPos signature), arguments))))"

subsection \<open>One comparison, for the first argument of a signature\<close>

text \<open>The first iteration of the loop for one parameter type: the argument after the
  \<^verbatim>\<open>(\<close> is extracted (lines 144-188) and compared with the type (lines 203-240).\<close>

definition firstArgumentMatches :: "string \<Rightarrow> QualType \<Rightarrow> (error + bool) option" where
  "firstArgumentMatches signature type =
     (case lParenOf signature of
        None \<Rightarrow> None
      | Some lParenPos \<Rightarrow>
          (case nextArgument signature (lParenPos + 1) of
             None \<Rightarrow> None
           | Some (searchPos, argBegin, argument) \<Rightarrow>
               Some (paramMatches signature argBegin (argBegin + length argument) type)))"

subsection \<open>Example declarations\<close>

text \<open>The class \<^verbatim>\<open>Counter\<close> of the specification's end-to-end example, with the overloads
  \<^verbatim>\<open>void increment()\<close> and \<^verbatim>\<open>void increment(int)\<close>.\<close>

definition Counter_increment :: CXXMethodDecl where
  "Counter_increment = \<lparr>parent = ''Counter'', getIdentifier = Some ''increment'', params = [],
     getMinRequiredArguments = 0, resultType = BuiltinType False ''void''\<rparr>"

definition Counter_increment_int :: CXXMethodDecl where
  "Counter_increment_int = \<lparr>parent = ''Counter'', getIdentifier = Some ''increment'',
     params = [BuiltinType False ''int''], getMinRequiredArguments = 1,
     resultType = BuiltinType False ''void''\<rparr>"

definition Counter_ctx :: ASTContext where
  "Counter_ctx = (\<lambda>c. if c = ''Counter''
      then Some \<lparr>methods = [Counter_increment, Counter_increment_int], bases = []\<rparr>
      else None)"

text \<open>A class with \<^verbatim>\<open>void f(QMap<int, QString>, int)\<close>.\<close>

definition Holder_f :: CXXMethodDecl where
  "Holder_f = \<lparr>parent = ''Holder'', getIdentifier = Some ''f'',
     params = [RecordType False ''QMap<int, QString>'', BuiltinType False ''int''],
     getMinRequiredArguments = 2, resultType = BuiltinType False ''void''\<rparr>"

definition Holder_ctx :: ASTContext where
  "Holder_ctx = (\<lambda>c. if c = ''Holder''
      then Some \<lparr>methods = [Holder_f], bases = []\<rparr> else None)"

text \<open>A signal with the trailing \<^verbatim>\<open>QPrivateSignal\<close> parameter, as \<^verbatim>\<open>void timeout(QPrivateSignal)\<close>
  of \<^verbatim>\<open>QTimer\<close>, beside a signal \<^verbatim>\<open>void timeout(int)\<close> that needs a real argument.\<close>

definition QTimer_timeout :: CXXMethodDecl where
  "QTimer_timeout = \<lparr>parent = ''QTimer'', getIdentifier = Some ''timeout'',
     params = [RecordType False ''QPrivateSignal''], getMinRequiredArguments = 1,
     resultType = BuiltinType False ''void''\<rparr>"

definition QTimer_timeout_int :: CXXMethodDecl where
  "QTimer_timeout_int = \<lparr>parent = ''QTimer'', getIdentifier = Some ''timeout'',
     params = [BuiltinType False ''int''], getMinRequiredArguments = 1,
     resultType = BuiltinType False ''void''\<rparr>"

definition QTimer_ctx :: ASTContext where
  "QTimer_ctx = (\<lambda>c. if c = ''QTimer''
      then Some \<lparr>methods = [QTimer_timeout_int, QTimer_timeout], bases = []\<rparr> else None)"

text \<open>A class with an overloaded \<^verbatim>\<open>setValue\<close> and a single \<^verbatim>\<open>reset\<close>.\<close>

definition Widget_setValue_int :: CXXMethodDecl where
  "Widget_setValue_int = \<lparr>parent = ''Widget'', getIdentifier = Some ''setValue'',
     params = [BuiltinType False ''int''], getMinRequiredArguments = 1,
     resultType = BuiltinType False ''void''\<rparr>"

definition Widget_setValue_double :: CXXMethodDecl where
  "Widget_setValue_double = \<lparr>parent = ''Widget'', getIdentifier = Some ''setValue'',
     params = [BuiltinType False ''double''], getMinRequiredArguments = 1,
     resultType = BuiltinType False ''void''\<rparr>"

definition Widget_reset :: CXXMethodDecl where
  "Widget_reset = \<lparr>parent = ''Widget'', getIdentifier = Some ''reset'', params = [],
     getMinRequiredArguments = 0, resultType = BuiltinType False ''void''\<rparr>"

definition Widget_ctx :: ASTContext where
  "Widget_ctx = (\<lambda>c. if c = ''Widget''
      then Some \<lparr>methods = [Widget_setValue_int, Widget_setValue_double, Widget_reset], bases = []\<rparr>
      else None)"

text \<open>A class whose \<^verbatim>\<open>d_func\<close> returns a pointer to the class itself:
  \<^verbatim>\<open>struct Loop { Loop *d_func(); };\<close>\<close>

definition Loop_d_func :: CXXMethodDecl where
  "Loop_d_func = \<lparr>parent = ''Loop'', getIdentifier = Some ''d_func'', params = [],
     getMinRequiredArguments = 0, resultType = PointerType False (RecordType False ''Loop'')\<rparr>"

definition Loop_ctx :: ASTContext where
  "Loop_ctx = (\<lambda>c. if c = ''Loop''
      then Some \<lparr>methods = [Loop_d_func], bases = []\<rparr> else None)"

text \<open>Three classes in a row: \<^verbatim>\<open>First\<close> has a \<^verbatim>\<open>d_func\<close> to \<^verbatim>\<open>Second\<close>, \<^verbatim>\<open>Second\<close> has a
  \<^verbatim>\<open>d_func\<close> to \<^verbatim>\<open>Third\<close>, and \<^verbatim>\<open>Third\<close> declares \<^verbatim>\<open>void done()\<close>.\<close>

definition First_d_func :: CXXMethodDecl where
  "First_d_func = \<lparr>parent = ''First'', getIdentifier = Some ''d_func'', params = [],
     getMinRequiredArguments = 0, resultType = PointerType False (RecordType False ''Second'')\<rparr>"

definition Second_d_func :: CXXMethodDecl where
  "Second_d_func = \<lparr>parent = ''Second'', getIdentifier = Some ''d_func'', params = [],
     getMinRequiredArguments = 0, resultType = PointerType False (RecordType False ''Third'')\<rparr>"

definition Third_done :: CXXMethodDecl where
  "Third_done = \<lparr>parent = ''Third'', getIdentifier = Some ''done'', params = [],
     getMinRequiredArguments = 0, resultType = BuiltinType False ''void''\<rparr>"

definition Chain_ctx :: ASTContext where
  "Chain_ctx = (\<lambda>c.
      if c = ''First'' then Some \<lparr>methods = [First_d_func], bases = []\<rparr>
      else if c = ''Second'' then Some \<lparr>methods = [Second_d_func], bases = []\<rparr>
      else if c = ''Third'' then Some \<lparr>methods = [Third_done], bases = []\<rparr>
      else None)"

text \<open>The specification's fallback example: \<^verbatim>\<open>A\<close> declares only \<^verbatim>\<open>B *d_func()\<close>, and \<^verbatim>\<open>B\<close>
  declares \<^verbatim>\<open>void slotName(int)\<close>.\<close>

definition A_d_func :: CXXMethodDecl where
  "A_d_func = \<lparr>parent = ''A'', getIdentifier = Some ''d_func'', params = [],
     getMinRequiredArguments = 0, resultType = PointerType False (RecordType False ''B'')\<rparr>"

definition B_slotName :: CXXMethodDecl where
  "B_slotName = \<lparr>parent = ''B'', getIdentifier = Some ''slotName'',
     params = [BuiltinType False ''int''], getMinRequiredArguments = 1,
     resultType = BuiltinType False ''void''\<rparr>"

definition AB_ctx :: ASTContext where
  "AB_ctx = (\<lambda>c.
      if c = ''A'' then Some \<lparr>methods = [A_d_func], bases = []\<rparr>
      else if c = ''B'' then Some \<lparr>methods = [B_slotName], bases = []\<rparr>
      else None)"

text \<open>A class \<^verbatim>\<open>Derived\<close> without methods whose base \<^verbatim>\<open>Base\<close> has the accessor
  \<^verbatim>\<open>Impl *d_func()\<close>, and \<^verbatim>\<open>Impl\<close> declares \<^verbatim>\<open>void changed(int)\<close>.\<close>

definition Base_d_func :: CXXMethodDecl where
  "Base_d_func = \<lparr>parent = ''Base'', getIdentifier = Some ''d_func'', params = [],
     getMinRequiredArguments = 0, resultType = PointerType False (RecordType False ''Impl'')\<rparr>"

definition Impl_changed :: CXXMethodDecl where
  "Impl_changed = \<lparr>parent = ''Impl'', getIdentifier = Some ''changed'',
     params = [BuiltinType False ''int''], getMinRequiredArguments = 1,
     resultType = BuiltinType False ''void''\<rparr>"

definition Derived_ctx :: ASTContext where
  "Derived_ctx = (\<lambda>c.
      if c = ''Derived'' then Some \<lparr>methods = [], bases = [RecordType False ''Base'']\<rparr>
      else if c = ''Base'' then Some \<lparr>methods = [Base_d_func], bases = []\<rparr>
      else if c = ''Impl'' then Some \<lparr>methods = [Impl_changed], bases = []\<rparr>
      else None)"

subsection \<open>Base chains\<close>

text \<open>
  The classes the walk visits before a redirection, as a list: every class of the list is
  defined, the first base of each is the next class of the list, and the last class has
  no base class that is a record. \<open>chainMethods\<close> are their methods in the order of the
  walk.
\<close>

fun baseChain :: "ASTContext \<Rightarrow> string list \<Rightarrow> bool" where
  "baseChain ctx [] = False"
| "baseChain ctx [c] = (case ctx c of None \<Rightarrow> False | Some cls \<Rightarrow> firstBase cls = None)"
| "baseChain ctx (c # c' # cs) =
     (case ctx c of
        None \<Rightarrow> False
      | Some cls \<Rightarrow> firstBase cls = Some c' \<and> baseChain ctx (c' # cs))"

fun chainMethods :: "ASTContext \<Rightarrow> string list \<Rightarrow> CXXMethodDecl list" where
  "chainMethods ctx [] = []"
| "chainMethods ctx (c # cs) =
     (case ctx c of None \<Rightarrow> [] | Some cls \<Rightarrow> methods cls) @ chainMethods ctx cs"

text \<open>A method with the searched name, and a method the walk takes as the accessor of the
  private implementation (line 56).\<close>

definition isNamed :: "string \<Rightarrow> CXXMethodDecl \<Rightarrow> bool" where
  "isNamed methodName m = (getIdentifier m = Some methodName)"

definition isAccessor :: "CXXMethodDecl \<Rightarrow> bool" where
  "isAccessor m = (getIdentifier m = Some ''d_func'' \<and> \<not> isNull (resultType m))"

subsection \<open>Balanced groups and well-nested arguments\<close>

text \<open>
  The text between a \<^verbatim>\<open><\<close> and its closing \<^verbatim>\<open>>\<close>: started at the given values, the two
  counters of the inner loop never become negative inside the text and are both 0 at its
  end.
\<close>

fun groupBody :: "int \<Rightarrow> int \<Rightarrow> string \<Rightarrow> bool" where
  "groupBody depth templDepth [] = (depth = 0 \<and> templDepth = 0)"
| "groupBody depth templDepth (c # cs) =
     (case nestStep c (depth, templDepth) of
        (d, t) \<Rightarrow> 0 \<le> d \<and> 0 \<le> t \<and> groupBody d t cs)"

text \<open>
  An argument text without a comma or closing parenthesis outside of \<^verbatim>\<open><...>\<close> groups, all of
  whose groups are closed inside the text. The state is \<open>None\<close> outside a group and holds
  the two counters inside one.
\<close>

fun wellNested :: "(int \<times> int) option \<Rightarrow> string \<Rightarrow> bool" where
  "wellNested None [] = True"
| "wellNested (Some dt) [] = False"
| "wellNested None (c # cs) =
     (c \<noteq> CHR '','' \<and> c \<noteq> CHR '')''
      \<and> (if c = CHR ''<'' then wellNested (Some (0, 0)) cs else wellNested None cs))"
| "wellNested (Some dt) (c # cs) =
     (case nestStep c dt of
        (d, t) \<Rightarrow> 0 \<le> d \<and> (if t < 0 then wellNested None cs else wellNested (Some (d, t)) cs))"

text \<open>\<^verbatim>\<open>join(args, ",")\<close>, and the text the loop extracts for an argument.\<close>

fun joinComma :: "string list \<Rightarrow> string" where
  "joinComma [] = []"
| "joinComma [a] = a"
| "joinComma (a # b # rest) = a @ CHR '','' # joinComma (b # rest)"

definition argumentText :: "string \<Rightarrow> string" where
  "argumentText raw = snd (extractArgument raw)"

section \<open>Properties\<close>

subsection \<open>The tokenizer is the loop without the candidates\<close>

lemma argumentLoop_fragments:
  "argumentLoop sbuf sig argPos arg candidates = Inr (Some (argPos', arg', candidates'))
    \<Longrightarrow> candidates' \<noteq> []
    \<Longrightarrow> \<exists>arguments. argumentFragments sig argPos arg = Some (argPos', arguments)
          \<and> arg' = arg + length arguments"
proof (induction sbuf sig argPos arg candidates rule: argumentLoop.induct)
  case (1 sbuf sig argPos arg candidates)
  show ?case
  proof (cases "argPos < length sig")
    case False
    with "1.prems" have "argPos' = argPos \<and> arg' = arg"
      by (subst (asm) argumentLoop.simps) simp
    with False show ?thesis
      by (subst argumentFragments.simps) simp
  next
    case inside: True
    show ?thesis
    proof (cases "candidates = []")
      case True
      with "1.prems" show ?thesis
        by (subst (asm) argumentLoop.simps) simp
    next
      case False
      with inside have go: "argPos < length sig \<and> candidates \<noteq> []" by simp
      with "1.prems" obtain searchPos argBegin argument where
        na: "nextArgument sig argPos = Some (searchPos, argBegin, argument)"
        by (subst (asm) argumentLoop.simps) (auto split: option.splits)
      show ?thesis
      proof (cases "argument = [] \<and> sig ! searchPos = CHR '')'' \<and> arg = 0")
        case True
        with "1.prems" go na have "argPos' = searchPos + 1 \<and> arg' = arg"
          by (subst (asm) argumentLoop.simps) simp
        with True inside na show ?thesis
          by (subst argumentFragments.simps) simp
      next
        case noBreak: False
        with "1.prems" go na obtain kept where
          pr: "pruneCandidates sbuf argBegin (argBegin + length argument) arg candidates = Inr kept"
          by (subst (asm) argumentLoop.simps) (auto split: sum.splits)
        show ?thesis
        proof (cases "sig ! searchPos = CHR '')''")
          case True
          with "1.prems" go na noBreak pr have "argPos' = searchPos + 1 \<and> arg' = arg + 1"
            by (subst (asm) argumentLoop.simps) (auto split: if_splits)
          with True inside na noBreak show ?thesis
            by (subst argumentFragments.simps) simp
        next
          case False
          with "1.prems" go na noBreak pr
          have "argumentLoop sbuf sig (searchPos + 1) (arg + 1) kept
              = Inr (Some (argPos', arg', candidates'))"
            by (subst (asm) argumentLoop.simps) (auto split: if_splits)
          from "1.IH" [OF go na refl refl noBreak pr False this "1.prems"(2)]
          obtain arguments where
            "argumentFragments sig (searchPos + 1) (arg + 1) = Some (argPos', arguments)"
            and "arg' = arg + 1 + length arguments"
            by blast
          with False inside na noBreak show ?thesis
            by (subst argumentFragments.simps) simp
        qed
      qed
    qed
  qed
qed

lemma resolved_is_tokenized:
  assumes "handleSignalOrSlot ctx objClass lit = Some (Inr (Some used))"
  shows "\<exists>methodName arguments. tokenize lit = Some (methodName, arguments)"
proof -
  from assms obtain signature lParenPos candidates where
    s: "signatureOf lit = Some signature" and l: "lParenOf signature = Some lParenPos"
    and r: "resolveCandidates (signatureBuffer lit) signature lParenPos candidates
        = Inr (Some used)"
    by (auto simp: handleSignalOrSlot_def split: option.splits)
  from r obtain argPos arg candidates' where
    a: "argumentLoop (signatureBuffer lit) signature (lParenPos + 1) 0 candidates
        = Inr (Some (argPos, arg, candidates'))"
    and u: "usedCandidate signature argPos arg candidates' = Some used"
    by (auto simp: resolveCandidates_def split: sum.splits option.splits)
  from u have e: "argPos = length signature" and ne: "candidates' \<noteq> []"
    by (auto simp: usedCandidate_def removeNeedingMore_def split: if_splits list.splits)
  from argumentLoop_fragments [OF a ne] obtain arguments where
    f: "argumentFragments signature (lParenPos + 1) 0 = Some (argPos, arguments)"
    by auto
  from s l f e show ?thesis
    by (simp add: tokenize_def)
qed

subsection \<open>Pruning only removes candidates\<close>

lemma subseq_pruneCandidates:
  "pruneCandidates sbuf argBegin argEnd arg candidates = Inr kept \<Longrightarrow> subseq kept candidates"
proof (induction candidates arbitrary: kept)
  case Nil
  then show ?case by simp
next
  case (Cons it rest)
  show ?case
  proof (cases "length (params it) < arg + 1")
    case True
    with Cons.prems have "pruneCandidates sbuf argBegin argEnd arg rest = Inr kept" by simp
    from Cons.IH [OF this] show ?thesis by (rule list_emb_Cons)
  next
    case False
    with Cons.prems obtain matched kept' where
      k: "pruneCandidates sbuf argBegin argEnd arg rest = Inr kept'"
      and r: "kept = (if matched then it # kept' else kept')"
      by (auto split: sum.splits)
    from Cons.IH [OF k] r show ?thesis by auto
  qed
qed

lemma argumentLoop_subseq:
  "argumentLoop sbuf sig argPos arg candidates = Inr (Some (argPos', arg', candidates'))
    \<Longrightarrow> subseq candidates' candidates"
proof (induction sbuf sig argPos arg candidates rule: argumentLoop.induct)
  case (1 sbuf sig argPos arg candidates)
  show ?case
  proof (cases "argPos < length sig \<and> candidates \<noteq> []")
    case False
    with "1.prems" show ?thesis
      by (subst (asm) argumentLoop.simps) auto
  next
    case go: True
    with "1.prems" obtain searchPos argBegin argument where
      na: "nextArgument sig argPos = Some (searchPos, argBegin, argument)"
      by (subst (asm) argumentLoop.simps) (auto split: option.splits)
    show ?thesis
    proof (cases "argument = [] \<and> sig ! searchPos = CHR '')'' \<and> arg = 0")
      case True
      with "1.prems" go na show ?thesis
        by (subst (asm) argumentLoop.simps) auto
    next
      case noBreak: False
      with "1.prems" go na obtain kept where
        pr: "pruneCandidates sbuf argBegin (argBegin + length argument) arg candidates = Inr kept"
        by (subst (asm) argumentLoop.simps) (auto split: sum.splits)
      have sk: "subseq kept candidates" by (rule subseq_pruneCandidates [OF pr])
      show ?thesis
      proof (cases "sig ! searchPos = CHR '')''")
        case True
        with "1.prems" go na noBreak pr have "candidates' = kept"
          by (subst (asm) argumentLoop.simps) auto
        with sk show ?thesis by simp
      next
        case False
        with "1.prems" go na noBreak pr
        have "argumentLoop sbuf sig (searchPos + 1) (arg + 1) kept = Inr (Some (argPos', arg', candidates'))"
          by (subst (asm) argumentLoop.simps) auto
        from "1.IH" [OF go na refl refl noBreak pr False this]
        have "subseq candidates' kept" .
        with sk show ?thesis by (blast intro: subseq_order.trans)
      qed
    qed
  qed
qed

text \<open>
  C1. In one resolution the candidates only shrink. A pruning step for one argument, the
  whole loop over the arguments and the final filter of the candidates that need more
  arguments each return a subsequence of the candidates they were given, so the number of
  candidates never grows; from no candidates each of them returns no candidates, and the
  function then returns without registering a use.
\<close>

theorem candidates_only_shrink:
  "(pruneCandidates sbuf argBegin argEnd arg candidates = Inr kept
      \<longrightarrow> subseq kept candidates \<and> length kept \<le> length candidates)
   \<and> (argumentLoop sbuf sig argPos arg candidates = Inr (Some (argPos', arg', candidates'))
      \<longrightarrow> subseq candidates' candidates \<and> length candidates' \<le> length candidates)
   \<and> subseq (removeNeedingMore arg candidates) candidates
   \<and> length (removeNeedingMore arg candidates) \<le> length candidates
   \<and> pruneCandidates sbuf argBegin argEnd arg [] = Inr []
   \<and> argumentLoop sbuf sig argPos arg [] = Inr (Some (argPos, arg, []))
   \<and> removeNeedingMore arg [] = []
   \<and> usedCandidate sig argPos arg [] = None
   \<and> resolveCandidates sbuf sig lParenPos [] = Inr None"
proof -
  have a: "pruneCandidates sbuf argBegin argEnd arg candidates = Inr kept
      \<longrightarrow> subseq kept candidates \<and> length kept \<le> length candidates"
    using subseq_pruneCandidates [of sbuf argBegin argEnd arg candidates kept]
    by (auto dest: list_emb_length)
  have b: "argumentLoop sbuf sig argPos arg candidates = Inr (Some (argPos', arg', candidates'))
      \<longrightarrow> subseq candidates' candidates \<and> length candidates' \<le> length candidates"
    using argumentLoop_subseq [of sbuf sig argPos arg candidates argPos' arg' candidates']
    by (auto dest: list_emb_length)
  have c: "subseq (removeNeedingMore arg candidates) candidates"
    by (simp add: removeNeedingMore_def)
  have d: "length (removeNeedingMore arg candidates) \<le> length candidates"
    by (simp add: removeNeedingMore_def)
  have e: "argumentLoop sbuf sig argPos arg [] = Inr (Some (argPos, arg, []))" for argPos arg
    by (subst argumentLoop.simps) simp
  have f: "removeNeedingMore arg [] = []"
    by (simp add: removeNeedingMore_def)
  have g: "usedCandidate sig argPos arg [] = None"
    by (simp add: usedCandidate_def f)
  have h: "resolveCandidates sbuf sig lParenPos [] = Inr None"
    by (simp add: resolveCandidates_def e usedCandidate_def removeNeedingMore_def)
  from a b c d e f g h show ?thesis by simp
qed

theorem candidates_only_shrink_witness:
  "pruneCandidates ''1increment(int)'' 11 14 0 [Counter_increment, Counter_increment_int]
      = Inr [Counter_increment_int]
   \<and> argumentLoop ''1increment(int)'' ''1increment(int)'' 11 0
        [Counter_increment, Counter_increment_int] = Inr (Some (15, 1, [Counter_increment_int]))
   \<and> subseq [Counter_increment_int] [Counter_increment, Counter_increment_int]
   \<and> length [Counter_increment_int] \<le> length [Counter_increment, Counter_increment_int]
   \<and> resolveCandidates ''1increment(int)'' ''1increment(int)'' 10 [] = Inr None"
proof -
  have p: "pruneCandidates ''1increment(int)'' 11 14 0 [Counter_increment, Counter_increment_int]
      = Inr [Counter_increment_int]"
    by code_simp
  have l: "argumentLoop ''1increment(int)'' ''1increment(int)'' 11 0
        [Counter_increment, Counter_increment_int] = Inr (Some (15, 1, [Counter_increment_int]))"
    by code_simp
  from p l
    candidates_only_shrink [of "''1increment(int)''" 11 14 0
      "[Counter_increment, Counter_increment_int]" "[Counter_increment_int]"
      "''1increment(int)''" 11 15 1 "[Counter_increment_int]" 10]
  show ?thesis by simp
qed

subsection \<open>The end-to-end example\<close>

text \<open>
  C2 (as amended). The signature string of a \<^verbatim>\<open>SIGNAL\<close> or \<^verbatim>\<open>SLOT\<close> macro starts with a
  marker character, which the code skips: the method name is the text from index 1 to the
  \<^verbatim>\<open>(\<close>. For the class \<^verbatim>\<open>Counter\<close> with exactly \<^verbatim>\<open>increment()\<close> and \<^verbatim>\<open>increment(int)\<close>, the
  string \<^verbatim>\<open>"1increment(int)"\<close> resolves to \<^verbatim>\<open>increment(int)\<close>, \<^verbatim>\<open>"1increment()"\<close> resolves to
  the overload without parameters, and \<^verbatim>\<open>"1increment(QString)"\<close> registers no use.
\<close>

theorem Counter_end_to_end:
  "handleSignalOrSlot Counter_ctx ''Counter'' ''1increment(int)''
      = Some (Inr (Some Counter_increment_int))
   \<and> handleSignalOrSlot Counter_ctx ''Counter'' ''1increment()''
      = Some (Inr (Some Counter_increment))
   \<and> handleSignalOrSlot Counter_ctx ''Counter'' ''1increment(QString)'' = Some (Inr None)"
proof -
  have a: "handleSignalOrSlot Counter_ctx ''Counter'' ''1increment(int)''
      = Some (Inr (Some Counter_increment_int))"
    by code_simp
  have b: "handleSignalOrSlot Counter_ctx ''Counter'' ''1increment()''
      = Some (Inr (Some Counter_increment))"
    by code_simp
  have c: "handleSignalOrSlot Counter_ctx ''Counter'' ''1increment(QString)'' = Some (Inr None)"
    by code_simp
  from a b c show ?thesis by simp
qed

text \<open>Without the marker character the name that is looked up is \<^verbatim>\<open>ncrement\<close>, and
  \<^verbatim>\<open>"increment(int)"\<close> and \<^verbatim>\<open>"increment()"\<close> resolve to nothing.\<close>

theorem Counter_unmarked_counterexample:
  "handleSignalOrSlot Counter_ctx ''Counter'' ''increment(int)'' = Some (Inr None)
   \<and> handleSignalOrSlot Counter_ctx ''Counter'' ''increment(int)''
        \<noteq> Some (Inr (Some Counter_increment_int))
   \<and> handleSignalOrSlot Counter_ctx ''Counter'' ''increment()'' = Some (Inr None)
   \<and> trim (slice 1 9 ''increment(int)'') = ''ncrement''"
proof -
  have a: "handleSignalOrSlot Counter_ctx ''Counter'' ''increment(int)'' = Some (Inr None)"
    by code_simp
  have b: "handleSignalOrSlot Counter_ctx ''Counter'' ''increment()'' = Some (Inr None)"
    by code_simp
  have c: "trim (slice 1 9 ''increment(int)'') = ''ncrement''"
    by code_simp
  from a b c show ?thesis by simp
qed

subsection \<open>The walk over the base classes and the private implementation\<close>

lemma scanMethods_append:
  "scanMethods methodName (xs @ ys) st = scanMethods methodName ys (scanMethods methodName xs st)"
proof (induction xs arbitrary: st)
  case Nil
  then show ?case by (cases st) simp
next
  case (Cons m xs)
  then show ?case by (cases st) (simp split: option.splits)
qed

lemma scanMethods_filter_find:
  "scanMethods methodName ms (candidates, d_func) =
     (candidates @ filter (isNamed methodName) ms,
      case d_func of None \<Rightarrow> find isAccessor ms | Some d \<Rightarrow> Some d)"
proof (induction ms arbitrary: candidates d_func)
  case Nil
  then show ?case by (simp split: option.splits)
next
  case (Cons m ms)
  show ?case
  proof (cases "getIdentifier m")
    case None
    with Cons.IH show ?thesis
      by (simp add: isNamed_def isAccessor_def split: option.splits)
  next
    case (Some name)
    with Cons.IH show ?thesis
      by (cases d_func) (simp_all add: isNamed_def isAccessor_def)
  qed
qed

lemma walk_base_chain:
  assumes "baseChain ctx chain"
  shows "lookUpLoop ctx methodName candidates d_func (Some (hd chain)) =
     (case scanMethods methodName (chainMethods ctx chain) (candidates, d_func) of
        (candidates', d_func') \<Rightarrow>
          (case d_func' of
             None \<Rightarrow> Some candidates'
           | Some d \<Rightarrow>
               if candidates' = []
               then lookUpLoop ctx methodName [] None (getPointeeCXXRecordDecl (resultType d))
               else Some candidates'))"
  using assms
proof (induction ctx chain arbitrary: candidates d_func rule: baseChain.induct)
  case (1 ctx)
  then show ?case by simp
next
  case (2 ctx c)
  then obtain cls where cls: "ctx c = Some cls" and nb: "firstBase cls = None"
    by (auto split: option.splits)
  obtain candidates' d_func' where
    sc: "scanMethods methodName (methods cls) (candidates, d_func) = (candidates', d_func')"
    by (cases "scanMethods methodName (methods cls) (candidates, d_func)")
  have stop: "lookUpLoop ctx methodName candidates' df None = Some candidates'" for df
    by (subst lookUpLoop.simps) simp
  show ?case
    by (subst lookUpLoop.simps) (simp add: cls nb sc stop split: option.splits)
next
  case (3 ctx c c' cs)
  then obtain cls where cls: "ctx c = Some cls" and nb: "firstBase cls = Some c'"
    and rest: "baseChain ctx (c' # cs)"
    by (auto split: option.splits)
  obtain candidates' d_func' where
    sc: "scanMethods methodName (methods cls) (candidates, d_func) = (candidates', d_func')"
    by (cases "scanMethods methodName (methods cls) (candidates, d_func)")
  from "3.IH" [OF cls rest, of candidates' d_func']
  have IH: "lookUpLoop ctx methodName candidates' d_func' (Some c') =
     (case scanMethods methodName (chainMethods ctx (c' # cs)) (candidates', d_func') of
        (candidates'', d_func'') \<Rightarrow>
          (case d_func'' of
             None \<Rightarrow> Some candidates''
           | Some d \<Rightarrow>
               if candidates'' = []
               then lookUpLoop ctx methodName [] None (getPointeeCXXRecordDecl (resultType d))
               else Some candidates''))"
    by simp
  have "lookUpLoop ctx methodName candidates d_func (Some c)
      = lookUpLoop ctx methodName candidates' d_func' (Some c')"
    by (subst lookUpLoop.simps) (simp add: cls nb sc split: option.splits)
  also note IH
  finally show ?case
    by (simp add: cls scanMethods_append sc)
qed

text \<open>
  C3 (as amended). Let the walk from a class go over a chain of defined classes, each the
  first base of the one before, that ends in a class without a base class; let no method
  of the chain have the searched name, and let \<open>d\<close> be the first method of the chain that is
  named \<^verbatim>\<open>d_func\<close> and has a return type, with a return type that points to the class \<open>B\<close>.
  Then the lookup in the first class of the chain is the lookup of the same name in \<open>B\<close>.
  In particular, with \<^verbatim>\<open>A\<close> declaring only \<^verbatim>\<open>B *d_func()\<close> and \<^verbatim>\<open>B\<close> declaring
  \<^verbatim>\<open>slotName(int)\<close>, the signature string \<^verbatim>\<open>"1slotName(int)"\<close>, with its marker character,
  resolves against \<^verbatim>\<open>A\<close> to \<^verbatim>\<open>B::slotName\<close>.
\<close>

theorem private_implementation_fallback:
  "(baseChain ctx chain
      \<and> filter (isNamed methodName) (chainMethods ctx chain) = []
      \<and> find isAccessor (chainMethods ctx chain) = Some d
      \<and> getPointeeCXXRecordDecl (resultType d) = Some B
     \<longrightarrow> lookUpCandidates ctx (hd chain) methodName = lookUpCandidates ctx B methodName)
   \<and> lookUpCandidates AB_ctx ''A'' ''slotName'' = Some [B_slotName]
   \<and> handleSignalOrSlot AB_ctx ''A'' ''1slotName(int)'' = Some (Inr (Some B_slotName))"
proof -
  have general: "lookUpCandidates ctx (hd chain) methodName = lookUpCandidates ctx B methodName"
    if chain: "baseChain ctx chain"
      and none: "filter (isNamed methodName) (chainMethods ctx chain) = []"
      and acc: "find isAccessor (chainMethods ctx chain) = Some d"
      and ptr: "getPointeeCXXRecordDecl (resultType d) = Some B"
  proof -
    have "scanMethods methodName (chainMethods ctx chain) ([], None) = ([], Some d)"
      by (simp add: scanMethods_filter_find none acc)
    with walk_base_chain [OF chain, of methodName "[]" None] ptr
    show ?thesis
      by (simp add: lookUpCandidates_def)
  qed
  have a: "lookUpCandidates AB_ctx ''A'' ''slotName'' = Some [B_slotName]"
    by code_simp
  have b: "handleSignalOrSlot AB_ctx ''A'' ''1slotName(int)'' = Some (Inr (Some B_slotName))"
    by code_simp
  from general a b show ?thesis by blast
qed

theorem private_implementation_fallback_witness:
  "baseChain Derived_ctx [''Derived'', ''Base'']
   \<and> filter (isNamed ''changed'') (chainMethods Derived_ctx [''Derived'', ''Base'']) = []
   \<and> find isAccessor (chainMethods Derived_ctx [''Derived'', ''Base'']) = Some Base_d_func
   \<and> getPointeeCXXRecordDecl (resultType Base_d_func) = Some ''Impl''
   \<and> lookUpCandidates Derived_ctx ''Derived'' ''changed''
        = lookUpCandidates Derived_ctx ''Impl'' ''changed''
   \<and> lookUpCandidates Derived_ctx ''Impl'' ''changed'' = Some [Impl_changed]
   \<and> handleSignalOrSlot Derived_ctx ''Derived'' ''2changed(int)'' = Some (Inr (Some Impl_changed))"
proof -
  have a: "baseChain Derived_ctx [''Derived'', ''Base'']"
    by code_simp
  have b: "filter (isNamed ''changed'') (chainMethods Derived_ctx [''Derived'', ''Base'']) = []"
    by code_simp
  have c: "find isAccessor (chainMethods Derived_ctx [''Derived'', ''Base'']) = Some Base_d_func"
    by code_simp
  have d: "getPointeeCXXRecordDecl (resultType Base_d_func) = Some ''Impl''"
    by code_simp
  have e: "lookUpCandidates Derived_ctx ''Impl'' ''changed'' = Some [Impl_changed]"
    by code_simp
  have f: "handleSignalOrSlot Derived_ctx ''Derived'' ''2changed(int)''
      = Some (Inr (Some Impl_changed))"
    by code_simp
  from a b c d e f
    private_implementation_fallback [of Derived_ctx "[''Derived'', ''Base'']" "''changed''"
      Base_d_func "''Impl''"]
  show ?thesis by simp
qed

text \<open>The string of the claim has no marker character: the name looked up for
  \<^verbatim>\<open>"slotName(int)"\<close> is \<^verbatim>\<open>lotName\<close>, which neither \<^verbatim>\<open>A\<close> nor \<^verbatim>\<open>B\<close> declares.\<close>

theorem slotName_unmarked_counterexample:
  "handleSignalOrSlot AB_ctx ''A'' ''slotName(int)'' = Some (Inr None)
   \<and> handleSignalOrSlot AB_ctx ''A'' ''slotName(int)'' \<noteq> Some (Inr (Some B_slotName))
   \<and> trim (slice 1 8 ''slotName(int)'') = ''lotName''"
proof -
  have a: "handleSignalOrSlot AB_ctx ''A'' ''slotName(int)'' = Some (Inr None)"
    by code_simp
  have b: "trim (slice 1 8 ''slotName(int)'') = ''lotName''"
    by code_simp
  from a b show ?thesis by simp
qed

subsection \<open>A walk that never returns\<close>

lemma Loop_walk_never_returns:
  assumes "lookUpLoop ctx methodName candidates d_func classIt = Some y"
  shows "\<not> (ctx = Loop_ctx \<and> methodName = ''missing'' \<and> candidates = [] \<and> d_func = None
            \<and> classIt = Some ''Loop'')"
proof (rule lookUpLoop.raw_induct
    [where P = "\<lambda>ctx methodName candidates d_func classIt y.
       \<not> (ctx = Loop_ctx \<and> methodName = ''missing'' \<and> candidates = [] \<and> d_func = None
            \<and> classIt = Some ''Loop'')", OF _ assms])
  fix walk :: "ASTContext \<Rightarrow> string \<Rightarrow> CXXMethodDecl list \<Rightarrow> CXXMethodDecl option
      \<Rightarrow> string option \<Rightarrow> CXXMethodDecl list option"
    and ctx methodName candidates d_func classIt y
  assume IH: "\<And>ctx methodName candidates d_func classIt y.
      walk ctx methodName candidates d_func classIt = Some y \<Longrightarrow>
      \<not> (ctx = Loop_ctx \<and> methodName = ''missing'' \<and> candidates = [] \<and> d_func = None
            \<and> classIt = Some ''Loop'')"
    and step: "(case classIt of
        None \<Rightarrow> Some candidates
      | Some c \<Rightarrow>
          (case ctx c of
             None \<Rightarrow> Some candidates
           | Some cls \<Rightarrow>
               (case scanMethods methodName (methods cls) (candidates, d_func) of
                  (candidates', d_func') \<Rightarrow>
                    (case d_func' of
                       None \<Rightarrow> walk ctx methodName candidates' d_func' (firstBase cls)
                     | Some d \<Rightarrow>
                         if firstBase cls = None \<and> candidates' = []
                         then walk ctx methodName candidates' None
                                (getPointeeCXXRecordDecl (resultType d))
                         else walk ctx methodName candidates' d_func' (firstBase cls))))) = Some y"
  show "\<not> (ctx = Loop_ctx \<and> methodName = ''missing'' \<and> candidates = [] \<and> d_func = None
            \<and> classIt = Some ''Loop'')"
  proof
    assume st: "ctx = Loop_ctx \<and> methodName = ''missing'' \<and> candidates = [] \<and> d_func = None
            \<and> classIt = Some ''Loop''"
    with step have "walk Loop_ctx ''missing'' [] None (Some ''Loop'') = Some y"
      by (simp add: Loop_ctx_def Loop_d_func_def firstBase_def)
    from IH [OF this] show False by simp
  qed
qed

text \<open>
  C4. The walk of \<^verbatim>\<open>lookUpCandidates\<close> does not return for every class hierarchy. For
  \<^verbatim>\<open>struct Loop { Loop *d_func(); };\<close> and a name the class does not declare, the walk
  redirects from \<^verbatim>\<open>Loop\<close> to \<^verbatim>\<open>Loop\<close> without end, and so do \<^verbatim>\<open>handleSignalOrSlot\<close> and
  \<^verbatim>\<open>handleInvokeMethod\<close>: resetting \<^verbatim>\<open>d_func\<close> to null at a redirection lets the scan of the
  next class set it again. For the same reason the redirection is taken twice for the
  classes \<^verbatim>\<open>First\<close>, \<^verbatim>\<open>Second\<close> and \<^verbatim>\<open>Third\<close>, where the name is found in \<^verbatim>\<open>Third\<close>.
\<close>

theorem d_func_cycle_never_returns:
  "lookUpCandidates Loop_ctx ''Loop'' ''missing'' = None
   \<and> handleSignalOrSlot Loop_ctx ''Loop'' ''1missing()'' = None
   \<and> handleInvokeMethod Loop_ctx ''Loop'' ''missing'' = None
   \<and> lookUpCandidates Chain_ctx ''First'' ''done'' = Some [Third_done]"
proof -
  have a: "lookUpCandidates Loop_ctx ''Loop'' ''missing'' = None"
  proof (cases "lookUpCandidates Loop_ctx ''Loop'' ''missing''")
    case None
    then show ?thesis .
  next
    case (Some y)
    then have "lookUpLoop Loop_ctx ''missing'' [] None (Some ''Loop'') = Some y"
      by (simp add: lookUpCandidates_def)
    from Loop_walk_never_returns [OF this] show ?thesis by simp
  qed
  have s: "signatureOf ''1missing()'' = Some ''1missing()''"
    by code_simp
  have l: "lParenOf ''1missing()'' = Some 8"
    by code_simp
  have n: "trim (slice (Suc 0) 8 ''1missing()'') = ''missing''"
    by code_simp
  have b: "handleSignalOrSlot Loop_ctx ''Loop'' ''1missing()'' = None"
    by (simp add: handleSignalOrSlot_def s l n a)
  have c: "handleInvokeMethod Loop_ctx ''Loop'' ''missing'' = None"
    by (simp add: handleInvokeMethod_def a)
  have d: "lookUpCandidates Chain_ctx ''First'' ''done'' = Some [Third_done]"
    by code_simp
  from a b c d show ?thesis by simp
qed

subsection \<open>Commas inside nested groups\<close>

lemma skipTemplate_groupBody:
  "groupBody depth templDepth body \<Longrightarrow> 0 \<le> depth \<Longrightarrow> 0 \<le> templDepth \<Longrightarrow>
   skipTemplate (pre @ body @ CHR ''>'' # post) (length pre) depth templDepth
     = length pre + length body + 1"
proof (induction body arbitrary: pre depth templDepth)
  case Nil
  then have z: "depth = 0" "templDepth = 0" by simp_all
  have "skipTemplate (pre @ CHR ''>'' # post) (length pre + 1) 0 (- 1) = length pre + 1"
    by (subst skipTemplate.simps) simp
  then show ?case
    by (subst skipTemplate.simps) (simp add: z)
next
  case (Cons c cs)
  obtain d t where dt: "nestStep c (depth, templDepth) = (d, t)"
    by (cases "nestStep c (depth, templDepth)")
  with Cons.prems have pos: "0 \<le> d" "0 \<le> t" and body: "groupBody d t cs"
    by simp_all
  from Cons.IH [OF body pos, of "pre @ [c]"]
  have "skipTemplate (pre @ (c # cs) @ CHR ''>'' # post) (length pre + 1) d t
      = length pre + length (c # cs) + 1"
    by simp
  with Cons.prems dt show ?case
    by (subst skipTemplate.simps) simp
qed

lemma findArgumentEnd_wellNested:
  assumes tc: "tc = CHR '','' \<or> tc = CHR '')''"
  shows "wellNested st a \<Longrightarrow>
    (case st of
       None \<Rightarrow> findArgumentEnd (pre @ a @ tc # post) (length pre) = length pre + length a
     | Some (d, t) \<Rightarrow> 0 \<le> d \<longrightarrow> 0 \<le> t \<longrightarrow>
         findArgumentEnd (pre @ a @ tc # post)
           (skipTemplate (pre @ a @ tc # post) (length pre) d t) = length pre + length a)"
proof (induction st a arbitrary: pre rule: wellNested.induct)
  case 1
  from tc show ?case
    by (subst findArgumentEnd.simps) auto
next
  case (2 dt)
  then show ?case by simp
next
  case (3 c cs)
  let ?sig = "pre @ (c # cs) @ tc # post"
  from "3.prems" have c: "c \<noteq> CHR '',''" "c \<noteq> CHR '')''" by simp_all
  have sig: "?sig = (pre @ [c]) @ cs @ tc # post" by simp
  show ?case
  proof (cases "c = CHR ''<''")
    case True
    with "3.prems" have "wellNested (Some (0, 0)) cs" by simp
    from "3.IH"(1) [OF True this, of "pre @ [c]"]
    have "findArgumentEnd ?sig (skipTemplate ?sig (length pre + 1) 0 0)
        = length pre + length (c # cs)"
      by simp
    with True show ?thesis
      by (subst findArgumentEnd.simps) simp
  next
    case False
    with "3.prems" have "wellNested None cs" by simp
    from "3.IH"(2) [OF False this, of "pre @ [c]"]
    have "findArgumentEnd ?sig (length pre + 1) = length pre + length (c # cs)"
      by simp
    with False c show ?thesis
      by (subst findArgumentEnd.simps) simp
  qed
next
  case (4 dt c cs)
  let ?sig = "pre @ (c # cs) @ tc # post"
  obtain d0 t0 where dt0: "dt = (d0, t0)" by (cases dt)
  obtain d t where dt: "nestStep c dt = (d, t)" by (cases "nestStep c dt")
  from "4.prems" dt have d: "0 \<le> d" by simp
  have "findArgumentEnd ?sig (skipTemplate ?sig (length pre) d0 t0) = length pre + length (c # cs)"
    if nonneg: "0 \<le> d0" "0 \<le> t0"
  proof -
    have step: "skipTemplate ?sig (length pre) d0 t0 = skipTemplate ?sig (length pre + 1) d t"
      using nonneg dt dt0 by (subst skipTemplate.simps) simp
    show ?thesis
    proof (cases "t < 0")
      case True
      with "4.prems" dt have "wellNested None cs" by simp
      from "4.IH"(1) [OF dt [symmetric] True this, of "pre @ [c]"]
      have "findArgumentEnd ?sig (length pre + 1) = length pre + length (c # cs)"
        by simp
      moreover from True have "skipTemplate ?sig (length pre + 1) d t = length pre + 1"
        by (subst skipTemplate.simps) simp
      ultimately show ?thesis using step by simp
    next
      case False
      with "4.prems" dt have "wellNested (Some (d, t)) cs" by simp
      from "4.IH"(2) [OF dt [symmetric] False this, of "pre @ [c]"] d False
      have "findArgumentEnd ?sig (skipTemplate ?sig (length pre + 1) d t)
          = length pre + length (c # cs)"
        by simp
      then show ?thesis using step by simp
    qed
  qed
  then show ?case by (simp add: dt0)
qed

text \<open>
  C5 (as amended). The scan for the next \<^verbatim>\<open>,\<close> or \<^verbatim>\<open>)\<close> tracks nesting only inside a group
  opened by \<^verbatim>\<open><\<close>. When the scan stands on the \<^verbatim>\<open><\<close> of a group whose body keeps both counters
  (the depth of parentheses, brackets and braces, and the template depth that counts
  \<^verbatim>\<open><\<close> and \<^verbatim>\<open>>\<close> at depth 0) from becoming negative and ends with both at 0, it goes on right
  after the closing \<^verbatim>\<open>>\<close>, whatever commas and parentheses the body holds; and for an
  argument text without a comma or closing parenthesis outside such closed groups, the end
  that is found is the first character after the text. So a comma inside an angle-bracket
  group never separates arguments, for every signature of that form. Outside angle brackets
  no depth is tracked.
\<close>

theorem comma_inside_angle_group_skipped:
  "(groupBody 0 0 body \<longrightarrow>
      skipTemplate (pre @ CHR ''<'' # body @ CHR ''>'' # post) (length pre + 1) 0 0
        = length pre + length body + 2
      \<and> findArgumentEnd (pre @ CHR ''<'' # body @ CHR ''>'' # post) (length pre)
        = findArgumentEnd (pre @ CHR ''<'' # body @ CHR ''>'' # post) (length pre + length body + 2)
      \<and> length pre + length body + 2
        \<le> findArgumentEnd (pre @ CHR ''<'' # body @ CHR ''>'' # post) (length pre))
   \<and> (wellNested None a \<and> (tc = CHR '','' \<or> tc = CHR '')'')
      \<longrightarrow> findArgumentEnd (pre @ a @ tc # post) (length pre) = length pre + length a)"
proof -
  let ?sig = "pre @ CHR ''<'' # body @ CHR ''>'' # post"
  have group: "skipTemplate ?sig (length pre + 1) 0 0 = length pre + length body + 2
      \<and> findArgumentEnd ?sig (length pre) = findArgumentEnd ?sig (length pre + length body + 2)
      \<and> length pre + length body + 2 \<le> findArgumentEnd ?sig (length pre)"
    if body: "groupBody 0 0 body"
  proof -
    from skipTemplate_groupBody [OF body, of "pre @ [CHR ''<'']" post]
    have skip: "skipTemplate ?sig (length pre + 1) 0 0 = length pre + length body + 2"
      by simp
    have scan: "findArgumentEnd ?sig (length pre)
        = findArgumentEnd ?sig (length pre + length body + 2)"
      using skip by (subst findArgumentEnd.simps) simp
    have "length pre + length body + 2 \<le> findArgumentEnd ?sig (length pre + length body + 2)"
      by (rule findArgumentEnd_ge)
    with skip scan show ?thesis by simp
  qed
  have whole: "findArgumentEnd (pre @ a @ tc # post) (length pre) = length pre + length a"
    if "wellNested None a" and "tc = CHR '','' \<or> tc = CHR '')''"
    using findArgumentEnd_wellNested [OF that(2) that(1), of pre post] by simp
  from group whole show ?thesis by blast
qed

theorem comma_inside_angle_group_skipped_witness:
  "groupBody 0 0 ''int,QPair<int,(a,b)>''
   \<and> skipTemplate ''2f(QMap<int,QPair<int,(a,b)>>,x)'' 8 0 0 = 29
   \<and> wellNested None ''QMap<int,QPair<int,(a,b)>>''
   \<and> findArgumentEnd ''2f(QMap<int,QPair<int,(a,b)>>,x)'' 3 = 29
   \<and> ''2f(QMap<int,QPair<int,(a,b)>>,x)'' ! 29 = CHR '',''"
proof -
  have g: "groupBody 0 0 ''int,QPair<int,(a,b)>''"
    by code_simp
  have w: "wellNested None ''QMap<int,QPair<int,(a,b)>>''"
    by code_simp
  have lp: "length ''2f(QMap'' = 7" and lb: "length ''int,QPair<int,(a,b)>'' = 20"
    and lq: "length ''2f('' = 3" and la: "length ''QMap<int,QPair<int,(a,b)>>'' = 26"
    by simp_all
  from g comma_inside_angle_group_skipped
    [where body = "''int,QPair<int,(a,b)>''" and pre = "''2f(QMap''" and post = "'',x)''"]
  have "skipTemplate (''2f(QMap'' @ CHR ''<'' # ''int,QPair<int,(a,b)>'' @ CHR ''>'' # '',x)'')
      (length ''2f(QMap'' + 1) 0 0 = length ''2f(QMap'' + length ''int,QPair<int,(a,b)>'' + 2"
    by blast
  then have a: "skipTemplate ''2f(QMap<int,QPair<int,(a,b)>>,x)'' 8 0 0 = 29"
    unfolding lp lb by simp
  from w comma_inside_angle_group_skipped
    [where a = "''QMap<int,QPair<int,(a,b)>>''" and tc = "CHR '',''" and pre = "''2f(''"
      and post = "''x)''"]
  have "findArgumentEnd (''2f('' @ ''QMap<int,QPair<int,(a,b)>>'' @ CHR '','' # ''x)'')
      (length ''2f('') = length ''2f('' + length ''QMap<int,QPair<int,(a,b)>>''"
    by blast
  then have b: "findArgumentEnd ''2f(QMap<int,QPair<int,(a,b)>>,x)'' 3 = 29"
    unfolding lq la by simp
  have c: "''2f(QMap<int,QPair<int,(a,b)>>,x)'' ! 29 = CHR '',''"
    by code_simp
  from g w a b c show ?thesis by simp
qed

text \<open>A comma inside parentheses or brackets that are not inside angle brackets ends the
  argument: in \<^verbatim>\<open>"2f(g(a,b))"\<close> the first argument ends at the comma at index 6, and
  \<^verbatim>\<open>"2f(a[b,c])"\<close> is split into the two arguments \<^verbatim>\<open>a[b\<close> and \<^verbatim>\<open>c]\<close>.\<close>

theorem comma_inside_parentheses_counterexample:
  "findArgumentEnd ''2f(g(a,b))'' 3 = 6
   \<and> ''2f(g(a,b))'' ! 6 = CHR '',''
   \<and> nextArgument ''2f(g(a,b))'' 3 = Some (6, 3, ''g(a'')
   \<and> tokenize ''2f(a[b,c])'' = Some (''f'', [''a[b'', ''c]''])
   \<and> tokenize ''2f(a{b,c})'' = Some (''f'', [''a{b'', ''c}''])"
proof -
  have a: "findArgumentEnd ''2f(g(a,b))'' 3 = 6"
    by code_simp
  have b: "''2f(g(a,b))'' ! 6 = CHR '',''"
    by code_simp
  have c: "nextArgument ''2f(g(a,b))'' 3 = Some (6, 3, ''g(a'')"
    by code_simp
  have d: "tokenize ''2f(a[b,c])'' = Some (''f'', [''a[b'', ''c]''])"
    by code_simp
  have e: "tokenize ''2f(a{b,c})'' = Some (''f'', [''a{b'', ''c}''])"
    by code_simp
  from a b c d e show ?thesis by simp
qed

subsection \<open>A comma inside a template argument list\<close>

text \<open>
  C6 (as amended). With the marker character in front, \<^verbatim>\<open>"2f(QMap<int,QString>,int)"\<close> is
  split into the method name \<^verbatim>\<open>f\<close> and exactly the two arguments \<^verbatim>\<open>QMap<int,QString>\<close> and
  \<^verbatim>\<open>int\<close>, and it resolves to \<^verbatim>\<open>f(QMap<int, QString>, int)\<close> of a class that declares it.
\<close>

theorem QMap_signature_two_arguments:
  "tokenize ''2f(QMap<int,QString>,int)'' = Some (''f'', [''QMap<int,QString>'', ''int''])
   \<and> handleSignalOrSlot Holder_ctx ''Holder'' ''2f(QMap<int,QString>,int)''
        = Some (Inr (Some Holder_f))"
proof -
  have a: "tokenize ''2f(QMap<int,QString>,int)'' = Some (''f'', [''QMap<int,QString>'', ''int''])"
    by code_simp
  have b: "handleSignalOrSlot Holder_ctx ''Holder'' ''2f(QMap<int,QString>,int)''
        = Some (Inr (Some Holder_f))"
    by code_simp
  from a b show ?thesis by simp
qed

text \<open>The string of the claim has its \<^verbatim>\<open>(\<close> at index 1, and line 125 returns for
  \<^verbatim>\<open>lParenPos < 2\<close>: it is refused before any argument is looked at.\<close>

theorem QMap_signature_unmarked_counterexample:
  "lParenOf ''f(QMap<int,QString>,int)'' = None
   \<and> tokenize ''f(QMap<int,QString>,int)'' = None
   \<and> handleSignalOrSlot Holder_ctx ''Holder'' ''f(QMap<int,QString>,int)'' = Some (Inr None)"
proof -
  have a: "lParenOf ''f(QMap<int,QString>,int)'' = None"
    by code_simp
  have b: "tokenize ''f(QMap<int,QString>,int)'' = None"
    by code_simp
  have c: "handleSignalOrSlot Holder_ctx ''Holder'' ''f(QMap<int,QString>,int)'' = Some (Inr None)"
    by code_simp
  from a b c show ?thesis by simp
qed

subsection \<open>The tokenizer reads back what was joined\<close>

lemma findChar_None: "findChar c xs = None \<longleftrightarrow> c \<notin> set xs"
  by (induction xs) (auto split: option.splits)

lemma findChar_first: "c \<notin> set xs \<Longrightarrow> findChar c (xs @ c # ys) = Some (length xs)"
  by (induction xs) auto

lemma findChar_after: "c \<notin> set xs \<Longrightarrow> findChar c (xs @ ys) = Some r \<Longrightarrow> length xs \<le> r"
  by (induction xs arbitrary: r) (auto split: option.splits if_splits)

lemma trim_unchanged:
  assumes "s \<noteq> []" and "\<not> isTrimChar (hd s)" and "\<not> isTrimChar (last s)"
  shows "trim s = s"
proof -
  from assms(1,2) have l: "ltrim s = s"
    by (cases s) (simp_all add: ltrim_def)
  from assms(1,3) have "dropWhile isTrimChar (rev s) = rev s"
    by (cases "rev s") (simp_all add: hd_rev)
  then have "rtrim s = s" by (simp add: rtrim_def)
  with l show ?thesis by (simp add: trim_def)
qed

lemma nextArgument_wellNested:
  assumes "wellNested None a" and "tc = CHR '','' \<or> tc = CHR '')''"
  shows "nextArgument (pre @ a @ tc # post) (length pre)
     = Some (length pre + length a, length pre + fst (extractArgument a), argumentText a)"
proof -
  from findArgumentEnd_wellNested [OF assms(2) assms(1), of pre post]
  have e: "findArgumentEnd (pre @ a @ tc # post) (length pre) = length pre + length a"
    by simp
  have "substr (length pre) (length a) (pre @ a @ tc # post) = a"
    by (simp add: substr_def)
  with e show ?thesis
    by (simp add: nextArgument_def argumentText_def split: prod.splits)
qed

lemma argumentFragments_joinComma:
  assumes "list_all (wellNested None) args" and "args \<noteq> []"
    and "\<not> (arg = 0 \<and> length args = 1 \<and> argumentText (hd args) = [])"
  shows "argumentFragments (pre @ joinComma args @ [CHR '')'']) (length pre) arg
     = Some (length pre + length (joinComma args) + 1, map argumentText args)"
  using assms
proof (induction args arbitrary: pre arg rule: joinComma.induct)
  case 1
  then show ?case by simp
next
  case (2 a)
  then have w: "wellNested None a" and ne: "\<not> (arg = 0 \<and> argumentText a = [])"
    by simp_all
  from nextArgument_wellNested [OF w, of "CHR '')''" pre "[]"]
  have n: "nextArgument (pre @ a @ [CHR '')'']) (length pre)
      = Some (length pre + length a, length pre + fst (extractArgument a), argumentText a)"
    by simp
  have t: "(pre @ a @ [CHR '')'']) ! (length pre + length a) = CHR '')''"
    by (simp add: nth_append)
  from ne show ?case
    by (subst argumentFragments.simps) (auto simp: n t)
next
  case (3 a b rest)
  let ?sig = "pre @ joinComma (a # b # rest) @ [CHR '')'']"
  from "3.prems" have w: "wellNested None a" and ws: "list_all (wellNested None) (b # rest)"
    by simp_all
  have sig: "?sig = pre @ a @ CHR '','' # (joinComma (b # rest) @ [CHR '')''])"
    by simp
  from nextArgument_wellNested [OF w, of "CHR '',''" pre "joinComma (b # rest) @ [CHR '')'']"]
  have n: "nextArgument ?sig (length pre)
      = Some (length pre + length a, length pre + fst (extractArgument a), argumentText a)"
    by simp
  have t: "?sig ! (length pre + length a) = CHR '',''"
    by (simp add: nth_append)
  from "3.IH" [OF ws, of "arg + 1" "pre @ a @ [CHR '','']"]
  have r: "argumentFragments ?sig (length pre + length a + 1) (arg + 1)
      = Some (length pre + length (joinComma (a # b # rest)) + 1, map argumentText (b # rest))"
    by simp
  have "length pre < length ?sig" by simp
  then show ?case
    using n t r by (subst argumentFragments.simps) (simp del: joinComma.simps)
qed

lemma set_joinComma: "c \<in> set (joinComma args) \<Longrightarrow> c = CHR '','' \<or> (\<exists>a\<in>set args. c \<in> set a)"
  by (induction args rule: joinComma.induct) auto

text \<open>
  C7 (as amended). Let the string be built as a marker character, the name, \<^verbatim>\<open>(\<close>, the
  arguments joined by \<^verbatim>\<open>,\<close> and \<^verbatim>\<open>)\<close>, where the marker is none of the characters that
  \<^verbatim>\<open>trim()\<close> strips, \<^verbatim>\<open>(\<close>, \<^verbatim>\<open>)\<close> and NUL, the name is not empty and holds no \<^verbatim>\<open>(\<close>, \<^verbatim>\<open>)\<close> or
  NUL, every argument holds no NUL and no \<^verbatim>\<open>,\<close> or \<^verbatim>\<open>)\<close> outside of closed \<^verbatim>\<open><...>\<close> groups,
  and the arguments are not a single argument whose extracted text is empty. Then the
  tokenizer returns the trimmed name and, for each argument in order, its extracted text:
  the argument trimmed, and with a leading \<^verbatim>\<open>"const "\<close> and a trailing \<^verbatim>\<open>"&"\<close> removed and
  trimmed again when it has both.
\<close>

theorem tokenize_round_trip:
  assumes marker: "\<not> isTrimChar marker" "marker \<noteq> CHR ''(''" "marker \<noteq> CHR '')''"
      "marker \<noteq> CHR 0x00"
    and name: "name \<noteq> []" "CHR ''('' \<notin> set name" "CHR '')'' \<notin> set name"
      "CHR 0x00 \<notin> set name"
    and args: "list_all (\<lambda>a. wellNested None a \<and> CHR 0x00 \<notin> set a) args"
    and single: "\<not> (length args = 1 \<and> argumentText (hd args) = [])"
  shows "tokenize (marker # name @ CHR ''('' # joinComma args @ [CHR '')''])
     = Some (trim name, map argumentText args)"
proof -
  define pre where "pre = marker # name @ [CHR ''('']"
  define lit where "lit = marker # name @ CHR ''('' # joinComma args @ [CHR '')'']"
  have lit: "lit = pre @ joinComma args @ [CHR '')'']"
    by (simp add: lit_def pre_def)
  have lpre: "length pre = length name + 1 + 1"
    by (simp add: pre_def)
  have llit: "length lit = length pre + length (joinComma args) + 1"
    by (simp add: lit)
  have wn: "list_all (wellNested None) args"
    using args by (simp add: list_all_iff)
  have nul_args: "CHR 0x00 \<notin> set (joinComma args)"
  proof
    assume "CHR 0x00 \<in> set (joinComma args)"
    from set_joinComma [OF this] args show False
      by (auto simp: list_all_iff)
  qed
  have "\<not> isTrimChar (CHR '')'')" by (simp add: isTrimChar_def)
  with marker(1) have tr: "trim lit = lit"
    unfolding lit_def by (intro trim_unchanged) simp_all
  have len: "\<not> length lit < 4"
    using name(1) unfolding lit_def by (cases name) simp_all
  have "CHR 0x00 \<notin> set lit"
    using marker(4) name(4) nul_args by (simp add: lit_def)
  then have nonul: "findChar (CHR 0x00) lit = None"
    by (simp add: findChar_None)
  have sig: "signatureOf lit = Some lit"
    by (simp add: signatureOf_def tr nonul len)
  have "CHR ''('' \<notin> set (marker # name)"
    using marker(2) name(2) by simp
  from findChar_first [OF this, of "joinComma args @ [CHR '')'']"]
  have lp: "findChar (CHR ''('') lit = Some (length name + 1)"
    by (simp add: lit_def)
  have "CHR '')'' \<in> set lit" by (simp add: lit_def)
  then have "findChar (CHR '')'') lit \<noteq> None"
    by (simp add: findChar_None)
  then obtain r where rp: "findChar (CHR '')'') lit = Some r"
    by blast
  have "CHR '')'' \<notin> set pre"
    using marker(3) name(3) by (simp add: pre_def)
  from findChar_after [OF this, of "joinComma args @ [CHR '')'']" r] rp
  have "length pre \<le> r"
    by (simp add: lit)
  then have rl: "\<not> r < length name + 1"
    by (simp add: lpre)
  have l2: "\<not> length name + 1 < 2"
    using name(1) by (cases name) simp_all
  have lparen: "lParenOf lit = Some (length name + 1)"
    using rl l2 by (simp add: lParenOf_def lp rp)
  have nm: "slice 1 (length name + 1) lit = name"
    by (simp add: slice_def lit_def)
  have frag: "argumentFragments lit (length name + 1 + 1) 0
      = Some (length lit, map argumentText args)"
  proof (cases "args = []")
    case True
    have w: "wellNested None []" by simp
    from nextArgument_wellNested [OF w, of "CHR '')''" pre "[]"]
    have n: "nextArgument (pre @ [CHR '')'']) (length pre)
        = Some (length pre, length pre + fst (extractArgument []), argumentText [])"
      by simp
    have e: "argumentText [] = []"
      by (simp add: argumentText_def extractArgument_def trim_def ltrim_def rtrim_def
          starts_with_def)
    have t: "(pre @ [CHR '')'']) ! length pre = CHR '')''"
      by (simp only: nth_append_length)
    have "argumentFragments (pre @ [CHR '')'']) (length pre) 0 = Some (length pre + 1, [])"
      by (subst argumentFragments.simps) (simp add: n e t)
    with True show ?thesis
      by (simp add: lit lpre)
  next
    case False
    from single have "\<not> ((0::nat) = 0 \<and> length args = 1 \<and> argumentText (hd args) = [])"
      by simp
    from argumentFragments_joinComma [OF wn False this, of pre]
    show ?thesis
      by (simp add: lit lpre)
  qed
  have "tokenize lit = Some (trim name, map argumentText args)"
    using frag nm by (simp add: tokenize_def sig lparen)
  then show ?thesis
    by (simp add: lit_def)
qed

theorem tokenize_round_trip_witness:
  "\<not> isTrimChar (CHR ''2'')
   \<and> wellNested None ''QMap<int,QString>'' \<and> wellNested None '' const QString & ''
   \<and> wellNested None ''int''
   \<and> argumentText '' const QString & '' = ''QString''
   \<and> tokenize ''2valueChanged (QMap<int,QString>, const QString & ,int)''
        = Some (''valueChanged'', [''QMap<int,QString>'', ''QString'', ''int''])"
proof -
  have m: "\<not> isTrimChar (CHR ''2'')" "CHR ''2'' \<noteq> CHR ''(''" "CHR ''2'' \<noteq> CHR '')''"
    "CHR ''2'' \<noteq> CHR 0x00"
    by (simp_all add: isTrimChar_def)
  have n: "''valueChanged '' \<noteq> []" "CHR ''('' \<notin> set ''valueChanged ''"
    "CHR '')'' \<notin> set ''valueChanged ''" "CHR 0x00 \<notin> set ''valueChanged ''"
    by simp_all
  have w: "wellNested None ''QMap<int,QString>''" "wellNested None '' const QString & ''"
    "wellNested None ''int''"
    by code_simp+
  then have a: "list_all (\<lambda>a. wellNested None a \<and> CHR 0x00 \<notin> set a)
      [''QMap<int,QString>'', '' const QString & '', ''int'']"
    by simp
  have s: "\<not> (length [''QMap<int,QString>'', '' const QString & '', ''int''] = 1
      \<and> argumentText (hd [''QMap<int,QString>'', '' const QString & '', ''int'']) = [])"
    by simp
  have t: "argumentText ''QMap<int,QString>'' = ''QMap<int,QString>''"
    "argumentText '' const QString & '' = ''QString''" "argumentText ''int'' = ''int''"
    "trim ''valueChanged '' = ''valueChanged''"
    by code_simp+
  from tokenize_round_trip [OF m n a s] t m(1) w show ?thesis
    by simp
qed

text \<open>A string built from the name without a marker character is not read back: for the
  name \<^verbatim>\<open>f\<close> it is refused, and for the name \<^verbatim>\<open>foo\<close> the method name is \<^verbatim>\<open>oo\<close>.\<close>

theorem round_trip_unmarked_counterexample:
  "tokenize (''f'' @ ''('' @ joinComma [''int''] @ '')'') = None
   \<and> tokenize (''foo'' @ ''('' @ joinComma [''int'', ''bool''] @ '')'')
        = Some (''oo'', [''int'', ''bool''])
   \<and> tokenize (''foo'' @ ''('' @ joinComma [''int'', ''bool''] @ '')'')
        \<noteq> Some (''foo'', [''int'', ''bool''])"
proof -
  have a: "tokenize (''f'' @ ''('' @ joinComma [''int''] @ '')'') = None"
    by code_simp
  have b: "tokenize (''foo'' @ ''('' @ joinComma [''int'', ''bool''] @ '')'')
        = Some (''oo'', [''int'', ''bool''])"
    by code_simp
  from a b show ?thesis by simp
qed

subsection \<open>The comparison of type texts\<close>

text \<open>
  C8 (as amended). The argument \<^verbatim>\<open>const QString &\<close> equals the parameter types \<^verbatim>\<open>QString\<close>
  and \<^verbatim>\<open>const QString &\<close>. The comparison skips \<^verbatim>\<open>"nsigned "\<close> where the iterator stands on
  an \<^verbatim>\<open>n\<close>, that is after a \<^verbatim>\<open>u\<close> that both texts share: \<^verbatim>\<open>uint\<close> equals \<^verbatim>\<open>unsigned int\<close> in
  both directions, while \<^verbatim>\<open>unsigned int\<close> and \<^verbatim>\<open>int\<close> are unequal in both directions. \<^verbatim>\<open>QString\<close>
  is unequal to \<^verbatim>\<open>QStringList\<close>.
\<close>

theorem type_text_comparison:
  "firstArgumentMatches ''2f(const QString &)'' (RecordType False ''QString'') = Some (Inr True)
   \<and> firstArgumentMatches ''2f(const QString &)'' (ReferenceType (RecordType True ''QString''))
        = Some (Inr True)
   \<and> firstArgumentMatches ''2f(uint)'' (BuiltinType False ''unsigned int'') = Some (Inr True)
   \<and> firstArgumentMatches ''2f(unsigned int)'' (BuiltinType False ''uint'') = Some (Inr True)
   \<and> firstArgumentMatches ''2f(unsigned int)'' (BuiltinType False ''int'') = Some (Inr False)
   \<and> firstArgumentMatches ''2f(int)'' (BuiltinType False ''unsigned int'') = Some (Inr False)
   \<and> firstArgumentMatches ''2f(QString)'' (RecordType False ''QStringList'') = Some (Inr False)"
proof -
  have a: "firstArgumentMatches ''2f(const QString &)'' (RecordType False ''QString'')
      = Some (Inr True)"
    by code_simp
  have b: "firstArgumentMatches ''2f(const QString &)'' (ReferenceType (RecordType True ''QString''))
      = Some (Inr True)"
    by code_simp
  have c: "firstArgumentMatches ''2f(uint)'' (BuiltinType False ''unsigned int'') = Some (Inr True)"
    by code_simp
  have d: "firstArgumentMatches ''2f(unsigned int)'' (BuiltinType False ''uint'') = Some (Inr True)"
    by code_simp
  have e: "firstArgumentMatches ''2f(unsigned int)'' (BuiltinType False ''int'') = Some (Inr False)"
    by code_simp
  have f: "firstArgumentMatches ''2f(int)'' (BuiltinType False ''unsigned int'') = Some (Inr False)"
    by code_simp
  have g: "firstArgumentMatches ''2f(QString)'' (RecordType False ''QStringList'') = Some (Inr False)"
    by code_simp
  from a b c d e f g show ?thesis by simp
qed

text \<open>\<^verbatim>\<open>unsigned int\<close> is not judged equal to \<^verbatim>\<open>int\<close>: the texts differ at their first
  characters \<^verbatim>\<open>u\<close> and \<^verbatim>\<open>i\<close>, neither is a space or an \<^verbatim>\<open>n\<close>, and the loop breaks.\<close>

theorem unsigned_int_counterexample:
  "firstArgumentMatches ''2f(unsigned int)'' (BuiltinType False ''int'') \<noteq> Some (Inr True)
   \<and> firstArgumentMatches ''2f(int)'' (BuiltinType False ''unsigned int'') \<noteq> Some (Inr True)
   \<and> compareLoop ''2f(unsigned int)'' 3 15 (''int'' @ [CHR 0x00]) 0 3 = Inr (3, 0)"
proof -
  have a: "firstArgumentMatches ''2f(unsigned int)'' (BuiltinType False ''int'') = Some (Inr False)"
    by code_simp
  have b: "firstArgumentMatches ''2f(int)'' (BuiltinType False ''unsigned int'') = Some (Inr False)"
    by code_simp
  have c: "compareLoop ''2f(unsigned int)'' 3 15 (''int'' @ [CHR 0x00]) 0 3 = Inr (3, 0)"
    by code_simp
  from a b c show ?thesis by simp
qed

subsection \<open>The final filter\<close>

text \<open>
  C9. After the last argument a candidate stays exactly when its minimum number of
  arguments is at most the number \<open>arg\<close> of arguments of the signature, or it declares
  \<open>arg + 1\<close> parameters and the last one prints as \<^verbatim>\<open>QPrivateSignal\<close>. So a candidate that
  needs one more argument stays when that extra parameter is the sentinel, and is dropped
  when the extra parameter prints as anything else.
\<close>

theorem final_filter_sentinel:
  "(it \<in> set (removeNeedingMore arg candidates) \<longleftrightarrow>
      it \<in> set candidates
      \<and> (getMinRequiredArguments it \<le> arg
          \<or> (length (params it) = arg + 1 \<and> getAsString (params it ! arg) = ''QPrivateSignal'')))
   \<and> (it \<in> set candidates \<and> getMinRequiredArguments it = arg + 1
        \<and> length (params it) = arg + 1 \<and> getAsString (params it ! arg) = ''QPrivateSignal''
      \<longrightarrow> it \<in> set (removeNeedingMore arg candidates))
   \<and> (getMinRequiredArguments it = arg + 1 \<and> getAsString (params it ! arg) \<noteq> ''QPrivateSignal''
      \<longrightarrow> it \<notin> set (removeNeedingMore arg candidates))"
  by (auto simp: removeNeedingMore_def needsMoreArguments_def)

theorem final_filter_sentinel_witness:
  "QTimer_timeout \<in> set (removeNeedingMore 0 [QTimer_timeout_int, QTimer_timeout])
   \<and> QTimer_timeout_int \<notin> set (removeNeedingMore 0 [QTimer_timeout_int, QTimer_timeout])
   \<and> getMinRequiredArguments QTimer_timeout = 0 + 1
   \<and> getMinRequiredArguments QTimer_timeout_int = 0 + 1
   \<and> handleSignalOrSlot QTimer_ctx ''QTimer'' ''2timeout()'' = Some (Inr (Some QTimer_timeout))"
proof -
  have e: "handleSignalOrSlot QTimer_ctx ''QTimer'' ''2timeout()'' = Some (Inr (Some QTimer_timeout))"
    by code_simp
  have s: "getAsString (params QTimer_timeout ! 0) = ''QPrivateSignal''"
    by (simp add: QTimer_timeout_def)
  have n: "getAsString (params QTimer_timeout_int ! 0) \<noteq> ''QPrivateSignal''"
    by (simp add: QTimer_timeout_int_def)
  from s n e
    final_filter_sentinel [of QTimer_timeout 0 "[QTimer_timeout_int, QTimer_timeout]"]
    final_filter_sentinel [of QTimer_timeout_int 0 "[QTimer_timeout_int, QTimer_timeout]"]
  show ?thesis
    by (simp add: QTimer_timeout_def QTimer_timeout_int_def)
qed

subsection \<open>invokeMethod\<close>

text \<open>
  C10. For a call of \<^verbatim>\<open>QMetaObject::invokeMethod\<close> with a method name that is not empty,
  \<^verbatim>\<open>handleInvokeMethod\<close> registers the use of a method exactly when the lookup by name returns
  that method alone. When the lookup returns no method, or two or more, nothing is
  registered: the first candidate is not taken.
\<close>

theorem invokeMethod_single_candidate:
  assumes "methodName \<noteq> []"
  shows "(handleInvokeMethod ctx objClass methodName = Some (Some used)
            \<longleftrightarrow> lookUpCandidates ctx objClass methodName = Some [used])
         \<and> (lookUpCandidates ctx objClass methodName = Some candidates \<and> length candidates \<noteq> 1
            \<longrightarrow> handleInvokeMethod ctx objClass methodName = Some None)"
proof -
  have "handleInvokeMethod ctx objClass methodName = Some (Some used)
            \<longleftrightarrow> lookUpCandidates ctx objClass methodName = Some [used]"
  proof (cases "lookUpCandidates ctx objClass methodName")
    case None
    with assms show ?thesis by (simp add: handleInvokeMethod_def)
  next
    case (Some cs)
    show ?thesis
    proof (cases cs)
      case Nil
      with Some assms show ?thesis by (simp add: handleInvokeMethod_def)
    next
      case (Cons c rest)
      with Some assms show ?thesis by (cases rest) (auto simp: handleInvokeMethod_def)
    qed
  qed
  moreover have "lookUpCandidates ctx objClass methodName = Some candidates \<and> length candidates \<noteq> 1
            \<longrightarrow> handleInvokeMethod ctx objClass methodName = Some None"
    using assms by (simp add: handleInvokeMethod_def)
  ultimately show ?thesis by simp
qed

theorem invokeMethod_single_candidate_witness:
  "''reset'' \<noteq> [] \<and> ''setValue'' \<noteq> [] \<and> ''clear'' \<noteq> []
   \<and> lookUpCandidates Widget_ctx ''Widget'' ''reset'' = Some [Widget_reset]
   \<and> handleInvokeMethod Widget_ctx ''Widget'' ''reset'' = Some (Some Widget_reset)
   \<and> lookUpCandidates Widget_ctx ''Widget'' ''setValue''
        = Some [Widget_setValue_int, Widget_setValue_double]
   \<and> handleInvokeMethod Widget_ctx ''Widget'' ''setValue'' = Some None
   \<and> lookUpCandidates Widget_ctx ''Widget'' ''clear'' = Some []
   \<and> handleInvokeMethod Widget_ctx ''Widget'' ''clear'' = Some None"
proof -
  have a: "lookUpCandidates Widget_ctx ''Widget'' ''reset'' = Some [Widget_reset]"
    by code_simp
  have b: "lookUpCandidates Widget_ctx ''Widget'' ''setValue''
        = Some [Widget_setValue_int, Widget_setValue_double]"
    by code_simp
  have c: "lookUpCandidates Widget_ctx ''Widget'' ''clear'' = Some []"
    by code_simp
  have n: "''reset'' \<noteq> []" "''setValue'' \<noteq> []" "''clear'' \<noteq> []"
    by simp_all
  from a b c
    invokeMethod_single_candidate [OF n(1), of Widget_ctx "''Widget''" Widget_reset "[Widget_reset]"]
    invokeMethod_single_candidate [OF n(2), of Widget_ctx "''Widget''" Widget_reset
      "[Widget_setValue_int, Widget_setValue_double]"]
    invokeMethod_single_candidate [OF n(3), of Widget_ctx "''Widget''" Widget_reset "[]"]
  show ?thesis by simp
qed

end
